theory Spec2Isabelle
  imports Main "HOL-Library.Sublist"
begin

section \<open>Client hooks\<close>

subsection \<open>Presence status (use-presence-websocket.ts)\<close>

text \<open>
  The status sent with a heartbeat is one of three string literals. Timestamps are the
  integer millisecond values of \<^verbatim>\<open>Date.now()\<close>; the clock reading is an argument.
\<close>

datatype presence_status = Active | Viewing | Inactive

definition ACTIVE_THRESHOLD_MS :: int where
  "ACTIVE_THRESHOLD_MS = 30000"

definition VIEWING_THRESHOLD_MS :: int where
  "VIEWING_THRESHOLD_MS = 2 * 60000"

definition computeStatus :: "int \<Rightarrow> int \<Rightarrow> presence_status" where
  "computeStatus now lastInteractionMs =
     (let elapsed = now - lastInteractionMs
      in if elapsed < ACTIVE_THRESHOLD_MS then Active
         else if elapsed < VIEWING_THRESHOLD_MS then Viewing
         else Inactive)"

text \<open>Distance from \<open>Active\<close>, to state that a status never moves back.\<close>

fun status_rank :: "presence_status \<Rightarrow> nat" where
  "status_rank Active = 0"
| "status_rank Viewing = 1"
| "status_rank Inactive = 2"

subsection \<open>Optimistic session insertion (use-sessions-websocket.ts)\<close>

datatype relation_type = Fork | Stack

record SessionEntry =
  id_field :: string
  name_field :: "string option"
  status_field :: string
  containerName :: "string option"
  createdAt :: int
  updatedAt :: int
  userId :: string
  projectId :: "string option"
  parentId :: "string option"
  relationType :: "relation_type option"

text \<open>
  \<^verbatim>\<open>addSession\<close> hands React the updater \<^verbatim>\<open>prev => ...\<close>; the model is that
  updater, from the previous list to the next one.
\<close>

definition addSession :: "SessionEntry \<Rightarrow> SessionEntry list \<Rightarrow> SessionEntry list" where
  "addSession newSession prev =
     (if list_ex (\<lambda>s. id_field s = id_field newSession) prev then prev
      else prev @ [newSession])"

section \<open>Strings\<close>

text \<open>
  Strings are byte strings. \<^verbatim>\<open>String.prototype.includes\<close> is the search for a
  contiguous occurrence; \<^verbatim>\<open>trim\<close> removes the ASCII white space and line
  terminators from both ends.
\<close>

primrec str_includes :: "string \<Rightarrow> string \<Rightarrow> bool" where
  "str_includes [] sub = (sub = [])"
| "str_includes (c # cs) sub = (prefix sub (c # cs) \<or> str_includes cs sub)"

definition is_space :: "char \<Rightarrow> bool" where
  "is_space c = (c \<in> set [CHR 0x09, CHR 0x0A, CHR 0x0B, CHR 0x0C, CHR 0x0D, CHR '' ''])"

definition trim :: "string \<Rightarrow> string" where
  "trim s = rev (dropWhile is_space (rev (dropWhile is_space s)))"

text \<open>A string in a condition is true when it is neither absent nor empty.\<close>

fun truthy :: "string option \<Rightarrow> bool" where
  "truthy None = False"
| "truthy (Some s) = (s \<noteq> [])"

section \<open>Thrown values, events and tasks\<close>

datatype trpc_code = BAD_REQUEST | NOT_FOUND | INTERNAL_SERVER_ERROR

text \<open>
  What the code observes of a caught value: whether it is an \<^verbatim>\<open>Error\<close> (then its
  message), its \<^verbatim>\<open>stderr\<close> property when that is a string, and for a
  \<^verbatim>\<open>TRPCError\<close> its code. A value that is no \<^verbatim>\<open>Error\<close> carries its
  \<^verbatim>\<open>String(...)\<close> rendering.
\<close>

datatype thrown =
    TRPCError trpc_code string
  | JsError string "string option"
  | NonError string "string option"

text \<open>
  The recurring block \<^verbatim>\<open>let stderr = ""; if (typeof error === "object" && ... )\<close>.
\<close>

fun stderr_of :: "thrown \<Rightarrow> string" where
  "stderr_of (TRPCError c m) = []"
| "stderr_of (JsError m s) = (case s of Some x \<Rightarrow> x | None \<Rightarrow> [])"
| "stderr_of (NonError r s) = (case s of Some x \<Rightarrow> x | None \<Rightarrow> [])"

text \<open>\<^verbatim>\<open>error instanceof Error ? error.message : fallback\<close>.\<close>

fun message_or :: "string \<Rightarrow> thrown \<Rightarrow> string" where
  "message_or fallback (TRPCError c m) = m"
| "message_or fallback (JsError m s) = m"
| "message_or fallback (NonError r s) = fallback"

datatype mount_mode = ReadOnly

record DockerMount =
  source :: string
  target :: string
  mode :: "mount_mode option"

record RunOptions =
  name :: string
  image :: string
  network :: string
  env :: "(string \<times> string) list"
  mounts :: "DockerMount list"
  extraHosts :: "string list"
  args :: "string list"

datatype session_status = pending | starting | running | stopped | error

record session_row =
  row_id :: string
  row_userId :: string
  row_status :: session_status
  row_containerName :: "string option"
  row_projectId :: "string option"

record where_clause =
  where_id :: string
  where_userId :: string
  where_status_in :: "session_status list option"

text \<open>
  Every call that leaves the service is an event, recorded with the call's arguments and
  with what the call returned or threw (\<open>Inl\<close> the thrown value).
\<close>

datatype event =
    FindUnique where_clause "thrown + session_row option"
  | Update where_clause "string option" session_status "thrown + session_row"
  | NotifySessionChange string "thrown + unit"
  | IsRunning string "thrown + bool option"
  | EnsureNetwork string bool "thrown + unit"
  | Pull string "thrown + unit"
  | Run RunOptions "thrown + unit"
  | Start string "thrown + unit"
  | Restart string "thrown + unit"
  | Remove string "thrown + unit"
  | Exec string "string list" "thrown + unit"
  | IngressCleanup string "thrown + unit"
  | Sleep nat
  | Stat string "thrown + bool"
  | Mkdir string "thrown + unit"
  | Access string "thrown + unit"
  | WriteFile string string "thrown + unit"
  | Rm string "thrown + unit"
  | ExecShell string "string option" "nat option" "thrown + unit"

text \<open>
  An asynchronous function is a task: from the state of the world outside the service it
  yields its result or the value it throws, the world afterwards and the events it caused,
  in order. The combinators are those of any module, whatever its events.
\<close>

type_synonym ('w, 'e, 'a) traced = "'w \<Rightarrow> (thrown + 'a) \<times> 'w \<times> 'e list"

type_synonym ('w, 'a) task = "('w, event, 'a) traced"

definition pure :: "'a \<Rightarrow> ('w, 'e, 'a) traced" where
  "pure x = (\<lambda>w. (Inr x, w, []))"

definition raise :: "thrown \<Rightarrow> ('w, 'e, 'a) traced" where
  "raise e = (\<lambda>w. (Inl e, w, []))"

definition andThen ::
  "('w, 'e, 'a) traced \<Rightarrow> ('a \<Rightarrow> ('w, 'e, 'b) traced) \<Rightarrow> ('w, 'e, 'b) traced" where
  "andThen m k = (\<lambda>w.
     case m w of
       (Inl e, w1, t1) \<Rightarrow> (Inl e, w1, t1)
     | (Inr x, w1, t1) \<Rightarrow> (case k x w1 of (r, w2, t2) \<Rightarrow> (r, w2, t1 @ t2)))"

definition try_catch ::
  "('w, 'e, 'a) traced \<Rightarrow> (thrown \<Rightarrow> ('w, 'e, 'a) traced) \<Rightarrow> ('w, 'e, 'a) traced" where
  "try_catch m h = (\<lambda>w.
     case m w of
       (Inl e, w1, t1) \<Rightarrow> (case h e w1 of (r, w2, t2) \<Rightarrow> (r, w2, t1 @ t2))
     | (Inr x, w1, t1) \<Rightarrow> (Inr x, w1, t1))"

definition await ::
  "('w \<Rightarrow> (thrown + 'a) \<times> 'w) \<Rightarrow> ((thrown + 'a) \<Rightarrow> 'e) \<Rightarrow> ('w, 'e, 'a) traced" where
  "await f ev = (\<lambda>w. case f w of (r, w1) \<Rightarrow> (r, w1, [ev r]))"

section \<open>Collaborators and settings\<close>

text \<open>
  The container driver, the entity store, the file system, the shell, the ingress service,
  the broadcaster and the timer are outside the service. A shell command is run with a
  working directory and a timeout in milliseconds, both optional. Each is a function of the world that
  may throw.
\<close>

record 'w collaborators =
  db_findUnique :: "where_clause \<Rightarrow> 'w \<Rightarrow> (thrown + session_row option) \<times> 'w"
  db_update :: "where_clause \<Rightarrow> string option \<Rightarrow> session_status \<Rightarrow> 'w \<Rightarrow> (thrown + session_row) \<times> 'w"
  notifySessionChange :: "string \<Rightarrow> 'w \<Rightarrow> (thrown + unit) \<times> 'w"
  docker_isRunning :: "string \<Rightarrow> 'w \<Rightarrow> (thrown + bool option) \<times> 'w"
  docker_ensureNetwork :: "string \<Rightarrow> bool \<Rightarrow> 'w \<Rightarrow> (thrown + unit) \<times> 'w"
  docker_pull :: "string \<Rightarrow> 'w \<Rightarrow> (thrown + unit) \<times> 'w"
  docker_run :: "RunOptions \<Rightarrow> 'w \<Rightarrow> (thrown + unit) \<times> 'w"
  docker_start :: "string \<Rightarrow> 'w \<Rightarrow> (thrown + unit) \<times> 'w"
  docker_restart :: "string \<Rightarrow> 'w \<Rightarrow> (thrown + unit) \<times> 'w"
  docker_remove :: "string \<Rightarrow> 'w \<Rightarrow> (thrown + unit) \<times> 'w"
  docker_exec :: "string \<Rightarrow> string list \<Rightarrow> 'w \<Rightarrow> (thrown + unit) \<times> 'w"
  ingress_cleanup :: "string \<Rightarrow> 'w \<Rightarrow> (thrown + unit) \<times> 'w"
  setTimeout :: "nat \<Rightarrow> 'w \<Rightarrow> 'w"
  fs_stat :: "string \<Rightarrow> 'w \<Rightarrow> (thrown + bool) \<times> 'w"
  fs_mkdir :: "string \<Rightarrow> 'w \<Rightarrow> (thrown + unit) \<times> 'w"
  fs_access :: "string \<Rightarrow> 'w \<Rightarrow> (thrown + unit) \<times> 'w"
  fs_writeFile :: "string \<Rightarrow> string \<Rightarrow> 'w \<Rightarrow> (thrown + unit) \<times> 'w"
  fs_rm :: "string \<Rightarrow> 'w \<Rightarrow> (thrown + unit) \<times> 'w"
  execAsync :: "string \<Rightarrow> string option \<Rightarrow> nat option \<Rightarrow> 'w \<Rightarrow> (thrown + unit) \<times> 'w"

text \<open>
  The module constants read from the process environment, the functions of Node's
  \<^verbatim>\<open>path\<close> module and \<^verbatim>\<open>sessionContainerNames\<close> (agent and ingress container
  name of a session id) are parameters. \<open>PORT\<close> and \<open>EGRESS_PROXY_PORT\<close> are the decimal
  renderings that the template strings produce.
\<close>

record settings =
  IMAGE :: string
  PORT :: string
  TTYD_CMD :: "string list"
  TTYD_INTERNAL_NETWORK :: string
  EGRESS_PROXY_HOST :: string
  EGRESS_PROXY_PORT :: string
  GITHUB_TOKEN :: "string option"
  EXTRA_HOSTS :: "string list"
  AGENT_WORKSPACE :: "string option"
  COMMANDER_BASE_PATH :: string
  DIND_CERTS_VOLUME :: string
  sessionContainerNames :: "string \<Rightarrow> string \<times> string"
  path_resolve :: "string list \<Rightarrow> string"
  path_join :: "string list \<Rightarrow> string"
  path_relative :: "string \<Rightarrow> string \<Rightarrow> string"
  path_isAbsolute :: "string \<Rightarrow> bool"
  path_dirname :: "string \<Rightarrow> string"

definition DIND_HOST :: string where
  "DIND_HOST = ''docker''"

definition DIND_PORT :: string where
  "DIND_PORT = ''2376''"

section \<open>Mount planner (mounts.ts)\<close>

definition ensureClaudeState ::
  "'w collaborators \<Rightarrow> settings \<Rightarrow> string \<Rightarrow> string \<Rightarrow> ('w, string \<times> string) task" where
  "ensureClaudeState E S basePath user =
     (let claudeBase = path_resolve S [basePath, user, ''claude''];
          claudeJson = path_join S [claudeBase, ''.claude.json''];
          claudeDir = path_join S [claudeBase, ''.claude'']
      in andThen (await (fs_mkdir E claudeDir) (Mkdir claudeDir)) (\<lambda>_.
         andThen (try_catch (await (fs_access E claudeJson) (Access claudeJson))
                    (\<lambda>_. await (fs_writeFile E claudeJson (''{}'' @ [CHR 0x0A]))
                            (WriteFile claudeJson (''{}'' @ [CHR 0x0A])))) (\<lambda>_.
         pure (claudeJson, claudeDir))))"

definition ensureAgentsConfig :: "'w collaborators \<Rightarrow> string \<Rightarrow> ('w, string) task" where
  "ensureAgentsConfig E basePath =
     andThen (await (fs_mkdir E basePath) (Mkdir basePath)) (\<lambda>_. pure basePath)"

definition buildAgentMounts ::
  "'w collaborators \<Rightarrow> settings \<Rightarrow> string \<Rightarrow> ('w, DockerMount list) task" where
  "buildAgentMounts E S user =
     (let statePath = COMMANDER_BASE_PATH S @ ''/.state''
      in andThen (ensureClaudeState E S statePath user) (\<lambda>(claudeJson, claudeDir).
         andThen (ensureAgentsConfig E (COMMANDER_BASE_PATH S @ ''/agents'')) (\<lambda>agentsConfig.
         pure
           [\<lparr>source = claudeJson, target = ''/home/commander/.claude.json'', mode = None\<rparr>,
            \<lparr>source = claudeDir, target = ''/home/commander/.claude'', mode = None\<rparr>,
            \<lparr>source = statePath @ ''/'' @ user @ ''/codex'',
               target = ''/home/commander/.codex'', mode = None\<rparr>,
            \<lparr>source = statePath @ ''/'' @ user @ ''/cursor'',
               target = ''/home/commander/.cursor'', mode = None\<rparr>,
            \<lparr>source = agentsConfig, target = ''/home/commander/.commander'', mode = None\<rparr>,
            \<lparr>source = DIND_CERTS_VOLUME S, target = ''/certs'', mode = Some ReadOnly\<rparr>])))"

section \<open>Session service (session.service.ts)\<close>

text \<open>
  The file holds two revisions of the service. The model is the later one, which pulls the
  image, retries on layer locks and skips the short-circuit on a reset.
\<close>

subsection \<open>Workspace resolution\<close>

definition invalid_workspace :: thrown where
  "invalid_workspace = TRPCError BAD_REQUEST ''Invalid workspace selection.''"

definition workspace_not_found :: thrown where
  "workspace_not_found = TRPCError BAD_REQUEST ''Workspace folder not found.''"

definition resolveWorkspaceMount ::
  "'w collaborators \<Rightarrow> settings \<Rightarrow> string option \<Rightarrow> ('w, string option) task" where
  "resolveWorkspaceMount E S workspaceSuffix =
     (if \<not> truthy (AGENT_WORKSPACE S) then pure None
      else
        let root = (case AGENT_WORKSPACE S of Some r \<Rightarrow> r | None \<Rightarrow> []);
            trimmed = trim (case workspaceSuffix of Some x \<Rightarrow> x | None \<Rightarrow> [])
        in if trimmed = [] then pure (AGENT_WORKSPACE S)
           else if str_includes trimmed ''..'' \<or> str_includes trimmed ''/''
                   \<or> str_includes trimmed [CHR 0x5C]
           then raise invalid_workspace
           else
             let candidate = path_resolve S [root, trimmed];
                 relative = path_relative S root candidate
             in if prefix ''..'' relative \<or> path_isAbsolute S relative
                then raise invalid_workspace
                else
                  andThen
                    (try_catch
                       (andThen (await (fs_stat E candidate) (Stat candidate)) (\<lambda>isDirectory.
                          if \<not> isDirectory then raise (JsError ''Not a directory'' None)
                          else pure ()))
                       (\<lambda>_. raise workspace_not_found))
                    (\<lambda>_. pure (Some candidate)))"

text \<open>The workspace entry of the mount list: present when the resolution gave a path.\<close>

definition workspace_mounts :: "string option \<Rightarrow> DockerMount list" where
  "workspace_mounts workspaceMount =
     (case workspaceMount of
        Some p \<Rightarrow> (if p \<noteq> [] then [\<lparr>source = p, target = ''/workspace'', mode = None\<rparr>] else [])
      | None \<Rightarrow> [])"

subsection \<open>Start\<close>

definition containerEnv :: "settings \<Rightarrow> (string \<times> string) list" where
  "containerEnv S =
     (let proxy = ''http://'' @ EGRESS_PROXY_HOST S @ '':'' @ EGRESS_PROXY_PORT S;
          no_proxy = ''localhost,127.0.0.1,::1,'' @ EGRESS_PROXY_HOST S @ '','' @ DIND_HOST
      in [(''COMMANDER_ENV_NODE_VERSION'', ''20''),
          (''POWERLEVEL9K_DISABLE_GITSTATUS'', ''true''),
          (''TERM'', ''xterm-256color''),
          (''COLORTERM'', ''truecolor''),
          (''DOCKER_HOST'', ''tcp://'' @ DIND_HOST @ '':'' @ DIND_PORT),
          (''DOCKER_TLS_VERIFY'', ''1''),
          (''DOCKER_CERT_PATH'', ''/certs/client''),
          (''HTTP_PROXY'', proxy),
          (''HTTPS_PROXY'', proxy),
          (''NO_PROXY'', no_proxy),
          (''http_proxy'', proxy),
          (''https_proxy'', proxy),
          (''no_proxy'', no_proxy)]
         @ (case GITHUB_TOKEN S of
              Some tok \<Rightarrow> (if tok \<noteq> [] then [(''GITHUB_TOKEN'', tok), (''GH_TOKEN'', tok)] else [])
            | None \<Rightarrow> []))"

definition containerArgs :: "settings \<Rightarrow> string list" where
  "containerArgs S = [''ttyd'', ''-W'', ''-p'', PORT S, ''-i'', ''0.0.0.0''] @ TTYD_CMD S"

definition MAX_LAYER_RETRIES :: nat where
  "MAX_LAYER_RETRIES = 5"

definition sleep :: "'w collaborators \<Rightarrow> nat \<Rightarrow> ('w, unit) task" where
  "sleep E ms = (\<lambda>w. (Inr (), setTimeout E ms w, [Sleep ms]))"

definition no_such_container :: "thrown \<Rightarrow> bool" where
  "no_such_container e = str_includes (stderr_of e) ''No such container''"

text \<open>
  Modelled from the spec: \<^verbatim>\<open>dockerService.safeRemove\<close> (docker.service.ts is not among
  the sources). The specification of the container driver says that it swallows "no such
  container" and reports everything else.
\<close>

definition safeRemove :: "'w collaborators \<Rightarrow> string \<Rightarrow> ('w, unit) task" where
  "safeRemove E container =
     try_catch (await (docker_remove E container) (Remove container))
       (\<lambda>e. if no_such_container e then pure () else raise e)"

definition ensureInternalNetwork :: "'w collaborators \<Rightarrow> settings \<Rightarrow> ('w, unit) task" where
  "ensureInternalNetwork E S =
     await (docker_ensureNetwork E (TTYD_INTERNAL_NETWORK S) True)
       (EnsureNetwork (TTYD_INTERNAL_NETWORK S) True)"

text \<open>
  The two tests of the catch block: a name conflict is read off \<^verbatim>\<open>stderr\<close>, a
  layer lock off \<^verbatim>\<open>stderr + message\<close>.
\<close>

definition name_conflict :: "thrown \<Rightarrow> bool" where
  "name_conflict e =
     (str_includes (stderr_of e) ''already in use'' \<or> str_includes (stderr_of e) ''Conflict'')"

definition layer_locked :: "thrown \<Rightarrow> bool" where
  "layer_locked e = str_includes (stderr_of e @ message_or [] e) ''locked''"

text \<open>
  One pass through the body of the create loop; its result is the value of
  \<^verbatim>\<open>launched\<close> afterwards.
\<close>

definition run_attempt ::
  "'w collaborators \<Rightarrow> settings \<Rightarrow> string \<Rightarrow> RunOptions \<Rightarrow> nat \<Rightarrow> ('w, bool) task" where
  "run_attempt E S agentContainer runOptions attempt =
     try_catch
       (andThen (await (docker_run E runOptions) (Run runOptions)) (\<lambda>_. pure True))
       (\<lambda>e.
          if name_conflict e then
            andThen
              (try_catch (await (docker_start E agentContainer) (Start agentContainer))
                 (\<lambda>_. andThen (safeRemove E agentContainer) (\<lambda>_.
                       andThen (ensureInternalNetwork E S) (\<lambda>_.
                       await (docker_run E runOptions) (Run runOptions)))))
              (\<lambda>_. pure True)
          else if layer_locked e \<and> attempt < MAX_LAYER_RETRIES then
            andThen (sleep E 5000) (\<lambda>_. pure False)
          else raise e)"

function create_loop ::
  "'w collaborators \<Rightarrow> settings \<Rightarrow> string \<Rightarrow> RunOptions \<Rightarrow> nat \<Rightarrow> bool \<Rightarrow> ('w, unit) task" where
  "create_loop E S agentContainer runOptions attempt launched w =
     (if attempt \<le> MAX_LAYER_RETRIES \<and> \<not> launched then
        (case run_attempt E S agentContainer runOptions attempt w of
           (Inl e, w1, t1) \<Rightarrow> (Inl e, w1, t1)
         | (Inr launched', w1, t1) \<Rightarrow>
             (case create_loop E S agentContainer runOptions (attempt + 1) launched' w1 of
                (r, w2, t2) \<Rightarrow> (r, w2, t1 @ t2)))
      else (Inr (), w, []))"
  by pat_completeness auto
termination
  by (relation "measure (\<lambda>(E, S, c, ro, attempt, launched, w). Suc MAX_LAYER_RETRIES - attempt)")
     (auto simp: MAX_LAYER_RETRIES_def)

declare create_loop.simps [simp del]

text \<open>The \<^verbatim>\<open>runOptions\<close> of a launch, for a container name and a mount list.\<close>

definition launch_options :: "settings \<Rightarrow> string \<Rightarrow> DockerMount list \<Rightarrow> RunOptions" where
  "launch_options S c ms =
     \<lparr>name = c, image = IMAGE S, network = TTYD_INTERNAL_NETWORK S, env = containerEnv S,
      mounts = ms, extraHosts = EXTRA_HOSTS S, args = containerArgs S\<rparr>"

text \<open>The branch of \<^verbatim>\<open>start\<close> for a missing container (\<^verbatim>\<open>running === null\<close>).\<close>

definition launch_container ::
  "'w collaborators \<Rightarrow> settings \<Rightarrow> string \<Rightarrow> string \<Rightarrow> string option \<Rightarrow> ('w, unit) task" where
  "launch_container E S user agentContainer workspaceSuffix =
     andThen (resolveWorkspaceMount E S workspaceSuffix) (\<lambda>workspaceMount.
     andThen (buildAgentMounts E S user) (\<lambda>agentMounts.
     andThen (ensureInternalNetwork E S) (\<lambda>_.
     andThen (await (docker_pull E (IMAGE S)) (Pull (IMAGE S))) (\<lambda>_.
     create_loop E S agentContainer
       (launch_options S agentContainer (agentMounts @ workspace_mounts workspaceMount))
       0 False))))"

record start_options =
  reset :: bool
  workspaceSuffix :: "string option"
  gitBranch :: "string option"

record StartSessionResult =
  started_containerName :: "string option"

definition session_not_found :: thrown where
  "session_not_found = TRPCError NOT_FOUND ''Session not found.''"

definition not_running :: thrown where
  "not_running = TRPCError INTERNAL_SERVER_ERROR ''Session container is not running.''"

definition checkout_branch ::
  "'w collaborators \<Rightarrow> string \<Rightarrow> string option \<Rightarrow> ('w, unit) task" where
  "checkout_branch E agentContainer branch =
     (case branch of
        Some b \<Rightarrow>
          (if b \<noteq> [] then
             try_catch
               (await (docker_exec E agentContainer [''git'', ''-C'', ''/workspace'', ''checkout'', b])
                  (Exec agentContainer [''git'', ''-C'', ''/workspace'', ''checkout'', b]))
               (\<lambda>_. pure ())
           else pure ())
      | None \<Rightarrow> pure ())"

text \<open>Steps 5 to 7: the second probe, the checkout, the store update, the broadcast.\<close>

definition finish_start ::
  "'w collaborators \<Rightarrow> string \<Rightarrow> string \<Rightarrow> string \<Rightarrow> start_options
     \<Rightarrow> ('w, StartSessionResult) task" where
  "finish_start E user sessionId agentContainer options =
     andThen (await (docker_isRunning E agentContainer) (IsRunning agentContainer)) (\<lambda>sessionRunning.
     if sessionRunning \<noteq> Some True then raise not_running
     else
       andThen (checkout_branch E agentContainer (gitBranch options)) (\<lambda>_.
       andThen
         (await
            (db_update E \<lparr>where_id = sessionId, where_userId = user, where_status_in = None\<rparr>
               (Some agentContainer) running)
            (Update \<lparr>where_id = sessionId, where_userId = user, where_status_in = None\<rparr>
               (Some agentContainer) running)) (\<lambda>updated.
       andThen
         (case row_projectId updated of
            Some p \<Rightarrow>
              (if p \<noteq> [] then await (notifySessionChange E p) (NotifySessionChange p) else pure ())
          | None \<Rightarrow> pure ()) (\<lambda>_.
       pure \<lparr>started_containerName = Some agentContainer\<rparr>))))"

text \<open>Steps 2 to 4: load the session, probe the container, act on the probe.\<close>

definition reconcile ::
  "'w collaborators \<Rightarrow> settings \<Rightarrow> string \<Rightarrow> string \<Rightarrow> start_options
     \<Rightarrow> ('w, StartSessionResult) task" where
  "reconcile E S user sessionId options =
     andThen
       (await (db_findUnique E \<lparr>where_id = sessionId, where_userId = user, where_status_in = None\<rparr>)
          (FindUnique \<lparr>where_id = sessionId, where_userId = user, where_status_in = None\<rparr>))
       (\<lambda>session.
          case session of
            None \<Rightarrow> raise session_not_found
          | Some row \<Rightarrow>
              if row_status row = stopped then raise session_not_found
              else
                let agentContainer = fst (sessionContainerNames S sessionId)
                in andThen (await (docker_isRunning E agentContainer) (IsRunning agentContainer))
                     (\<lambda>probe.
                        andThen
                          (case probe of
                             None \<Rightarrow>
                               launch_container E S user agentContainer (workspaceSuffix options)
                           | Some is_up \<Rightarrow>
                               if reset options then
                                 await (docker_restart E agentContainer) (Restart agentContainer)
                               else if \<not> is_up then
                                 await (docker_start E agentContainer) (Start agentContainer)
                               else pure ())
                          (\<lambda>_. finish_start E user sessionId agentContainer options)))"

definition start ::
  "'w collaborators \<Rightarrow> settings \<Rightarrow> string \<Rightarrow> string \<Rightarrow> start_options
     \<Rightarrow> ('w, StartSessionResult) task" where
  "start E S user sessionId options =
     andThen
       (if \<not> reset options then
          await
            (db_findUnique E
               \<lparr>where_id = sessionId, where_userId = user,
                where_status_in = Some [starting, running]\<rparr>)
            (FindUnique
               \<lparr>where_id = sessionId, where_userId = user,
                where_status_in = Some [starting, running]\<rparr>)
        else pure None)
       (\<lambda>existingSession.
          case existingSession of
            Some row \<Rightarrow> pure \<lparr>started_containerName = row_containerName row\<rparr>
          | None \<Rightarrow> reconcile E S user sessionId options)"

subsection \<open>Stop\<close>




section \<open>Git workspace service (git.service.ts)\<close>

text \<open>\<^verbatim>\<open>String.prototype.split\<close> with a one-character separator.\<close>

fun split_on :: "char \<Rightarrow> string \<Rightarrow> string list" where
  "split_on sep [] = [[]]"
| "split_on sep (c # cs) =
     (if c = sep then [] # split_on sep cs
      else (case split_on sep cs of
              p # ps \<Rightarrow> (c # p) # ps
            | [] \<Rightarrow> [[c]]))"







definition clone_command :: "string \<Rightarrow> string \<Rightarrow> string" where
  "clone_command cloneUrl targetPath =
     ''git clone --depth 1 --single-branch '' @ [CHR 0x22] @ cloneUrl @ [CHR 0x22] @ '' ''
       @ [CHR 0x22] @ targetPath @ [CHR 0x22]"


text \<open>\<^verbatim>\<open>error instanceof Error ? error.message : String(error)\<close>.\<close>

fun thrown_text :: "thrown \<Rightarrow> string" where
  "thrown_text (TRPCError c m) = m"
| "thrown_text (JsError m s) = m"
| "thrown_text (NonError r s) = r"

text \<open>
  The replacement \<^verbatim>\<open>message.replace(/https:\/\/[^@]+@github\.com/g, "https://***@github.com")\<close>.
  At a position the pattern matches exactly when \<open>https://\<close> is followed by the longest run
  of characters other than \<open>@\<close>, the run is not empty and \<open>@github.com\<close> comes next: the
  class cannot give a character back to the literal that follows it. \<open>redact_match\<close> is the
  length of the match at the start of a string; the replacement goes on after the match.
\<close>

definition REDACTED :: string where
  "REDACTED = ''https://***@github.com''"

definition redact_match :: "string \<Rightarrow> nat option" where
  "redact_match s =
     (if prefix ''https://'' s then
        let rest = drop 8 s;
            user = takeWhile (\<lambda>c. c \<noteq> CHR ''@'') rest
        in if user \<noteq> [] \<and> prefix ''@github.com'' (drop (length user) rest)
           then Some (8 + length user + 11) else None
      else None)"

function sanitize :: "string \<Rightarrow> string" where
  "sanitize [] = []"
| "sanitize (c # cs) =
     (case redact_match (c # cs) of
        Some n \<Rightarrow> REDACTED @ sanitize (drop n (c # cs))
      | None \<Rightarrow> c # sanitize cs)"
  by pat_completeness auto
termination
  by (relation "measure length") (auto simp: redact_match_def Let_def split: if_splits)

definition clone ::
  "'w collaborators \<Rightarrow> settings \<Rightarrow> string \<Rightarrow> string \<Rightarrow> string \<Rightarrow> ('w, unit) task" where
  "clone E S cloneUrl targetPath repository =
     andThen (await (fs_mkdir E (path_dirname S targetPath)) (Mkdir (path_dirname S targetPath))) (\<lambda>_.
     try_catch
       (await (execAsync E (clone_command cloneUrl targetPath) None (Some 300000))
          (ExecShell (clone_command cloneUrl targetPath) None (Some 300000)))
       (\<lambda>e. raise (JsError (''Failed to clone repository: '' @ sanitize (thrown_text e)) None)))"



section \<open>Reading traces\<close>

fun is_Run :: "event \<Rightarrow> bool" where
  "is_Run (Run ro r) = True"
| "is_Run _ = False"

fun is_Restart :: "event \<Rightarrow> bool" where
  "is_Restart (Restart c r) = True"
| "is_Restart _ = False"

fun is_Sleep :: "event \<Rightarrow> bool" where
  "is_Sleep (Sleep ms) = True"
| "is_Sleep _ = False"

fun is_Pull :: "event \<Rightarrow> bool" where
  "is_Pull (Pull i r) = True"
| "is_Pull _ = False"

fun is_EnsureNetwork :: "event \<Rightarrow> bool" where
  "is_EnsureNetwork (EnsureNetwork n i r) = True"
| "is_EnsureNetwork _ = False"

text \<open>The value an event's call threw, if it threw.\<close>

fun failure :: "thrown + 'a \<Rightarrow> thrown option" where
  "failure (Inl e) = Some e"
| "failure (Inr x) = None"

fun thrown_by :: "event \<Rightarrow> thrown option" where
  "thrown_by (FindUnique q r) = failure r"
| "thrown_by (Update q c st r) = failure r"
| "thrown_by (NotifySessionChange p r) = failure r"
| "thrown_by (IsRunning c r) = failure r"
| "thrown_by (EnsureNetwork n i r) = failure r"
| "thrown_by (Pull i r) = failure r"
| "thrown_by (Run ro r) = failure r"
| "thrown_by (Start c r) = failure r"
| "thrown_by (Restart c r) = failure r"
| "thrown_by (Remove c r) = failure r"
| "thrown_by (Exec c argv r) = failure r"
| "thrown_by (IngressCleanup sid r) = failure r"
| "thrown_by (Sleep ms) = None"
| "thrown_by (Stat p r) = failure r"
| "thrown_by (Mkdir p r) = failure r"
| "thrown_by (Access p r) = failure r"
| "thrown_by (WriteFile p c r) = failure r"
| "thrown_by (Rm p r) = failure r"
| "thrown_by (ExecShell cmd cwd tmo r) = failure r"

text \<open>Kinds of events: file system calls, the calls of the create loop, the calls after it.\<close>

fun is_fs :: "event \<Rightarrow> bool" where
  "is_fs (Stat p r) = True"
| "is_fs (Mkdir p r) = True"
| "is_fs (Access p r) = True"
| "is_fs (WriteFile p c r) = True"
| "is_fs _ = False"

fun loop_event :: "event \<Rightarrow> bool" where
  "loop_event (Run ro r) = True"
| "loop_event (Sleep ms) = True"
| "loop_event (Start c r) = True"
| "loop_event (Remove c r) = True"
| "loop_event (EnsureNetwork n i r) = True"
| "loop_event _ = False"


fun is_finish :: "event \<Rightarrow> bool" where
  "is_finish (IsRunning c r) = True"
| "is_finish (Exec c argv r) = True"
| "is_finish (Update q c st r) = True"
| "is_finish (NotifySessionChange p r) = True"
| "is_finish _ = False"

text \<open>The outcome of the first container probe of a trace.\<close>

fun first_probe :: "event list \<Rightarrow> (thrown + bool option) option" where
  "first_probe [] = None"
| "first_probe (IsRunning c r # t) = Some r"
| "first_probe (ev # t) = first_probe t"

text \<open>The name of the call behind an event.\<close>

fun call_name :: "event \<Rightarrow> string" where
  "call_name (FindUnique q r) = ''findUnique''"
| "call_name (Update q c st r) = ''update''"
| "call_name (NotifySessionChange p r) = ''notifySessionChange''"
| "call_name (IsRunning c r) = ''isRunning''"
| "call_name (EnsureNetwork n i r) = ''ensureNetwork''"
| "call_name (Pull i r) = ''pull''"
| "call_name (Run ro r) = ''run''"
| "call_name (Start c r) = ''start''"
| "call_name (Restart c r) = ''restart''"
| "call_name (Remove c r) = ''remove''"
| "call_name (Exec c argv r) = ''dockerExec''"
| "call_name (IngressCleanup sid r) = ''cleanup''"
| "call_name (Sleep ms) = ''sleep''"
| "call_name (Stat p r) = ''stat''"
| "call_name (Mkdir p r) = ''mkdir''"
| "call_name (Access p r) = ''access''"
| "call_name (WriteFile p c r) = ''writeFile''"
| "call_name (Rm p r) = ''rm''"
| "call_name (ExecShell cmd cwd tmo r) = ''exec''"

text \<open>The events of \<open>n\<close> layer-lock retries: a failed run, then the 5000 ms sleep, each time.\<close>

definition retries :: "RunOptions \<Rightarrow> thrown list \<Rightarrow> event list" where
  "retries ro es = concat (map (\<lambda>e. [Run ro (Inl e), Sleep 5000]) es)"

text \<open>
  The events of the attempt that ends the create loop, with the loop's result: a single run
  that succeeded or whose error is thrown, or a run that failed by a name conflict followed
  by the recovery (start, and on its failure remove, network, one more run).
\<close>

definition last_attempt :: "RunOptions \<Rightarrow> event list \<Rightarrow> thrown + unit \<Rightarrow> bool" where
  "last_attempt ro final r =
     ((\<exists>res. final = [Run ro res] \<and>
         (res = Inr () \<and> r = Inr () \<or> (\<exists>e. res = Inl e \<and> r = Inl e \<and> \<not> name_conflict e)))
      \<or> (\<exists>e rest. final = Run ro (Inl e) # rest \<and> name_conflict e \<and> rest \<noteq> []
            \<and> \<not> list_ex is_Sleep rest \<and> length (filter is_Run rest) \<le> 1
            \<and> (\<forall>ro' res. Run ro' res \<in> set rest \<longrightarrow> ro' = ro)
            \<and> (r = Inr () \<or> (\<exists>e'. r = Inl e' \<and> thrown_by (last rest) = Some e'))))"

section \<open>Scripted collaborators for the closed examples\<close>

text \<open>
  The world of the examples counts the run calls and the probes made so far; the scripts
  give the outcome of the i-th run and of the i-th probe. The store holds one pending
  session of project \<open>p1\<close>; every other call succeeds, except that the state file is absent
  and that every shell command fails with the message Node gives it, the command line after
  \<open>Command failed:\<close>.
\<close>

definition example_settings :: "string option \<Rightarrow> settings" where
  "example_settings root =
     \<lparr>IMAGE = ''agent:latest'', PORT = ''7681'', TTYD_CMD = [''/bin/sh''],
      TTYD_INTERNAL_NETWORK = ''oc-internal'', EGRESS_PROXY_HOST = ''egress'',
      EGRESS_PROXY_PORT = ''3128'', GITHUB_TOKEN = None, EXTRA_HOSTS = [],
      AGENT_WORKSPACE = root, COMMANDER_BASE_PATH = ''/data'', DIND_CERTS_VOLUME = ''certs'',
      sessionContainerNames = (\<lambda>sid. (''oc-sess-'' @ sid, ''oc-ingress-'' @ sid)),
      path_resolve = (\<lambda>parts. foldr (\<lambda>p acc. if acc = [] then p else p @ ''/'' @ acc) parts []),
      path_join = (\<lambda>parts. foldr (\<lambda>p acc. if acc = [] then p else p @ ''/'' @ acc) parts []),
      path_relative = (\<lambda>from to. drop (Suc (length from)) to),
      path_isAbsolute = (\<lambda>p. prefix ''/'' p),
      path_dirname = (\<lambda>p. rev (drop 1 (dropWhile (\<lambda>c. c \<noteq> CHR ''/'') (rev p))))\<rparr>"

definition scripted ::
  "(nat \<Rightarrow> thrown + unit) \<Rightarrow> (nat \<Rightarrow> thrown + bool option) \<Rightarrow> (thrown + unit)
     \<Rightarrow> (string \<Rightarrow> thrown + unit) \<Rightarrow> (thrown + unit) \<Rightarrow> (thrown + bool)
     \<Rightarrow> (nat \<times> nat) collaborators" where
  "scripted run_script probe_script start_result remove_script cleanup_result stat_result =
     \<lparr>db_findUnique = (\<lambda>q w.
        (Inr (if (case where_status_in q of None \<Rightarrow> True | Some sts \<Rightarrow> pending \<in> set sts)
              then Some \<lparr>row_id = where_id q, row_userId = where_userId q, row_status = pending,
                        row_containerName = None, row_projectId = Some ''p1''\<rparr>
              else None), w)),
      db_update = (\<lambda>q c st w.
        (Inr \<lparr>row_id = where_id q, row_userId = where_userId q, row_status = st,
              row_containerName = c, row_projectId = Some ''p1''\<rparr>, w)),
      notifySessionChange = (\<lambda>p w. (Inr (), w)),
      docker_isRunning = (\<lambda>c (runs, probes). (probe_script probes, (runs, Suc probes))),
      docker_ensureNetwork = (\<lambda>n i w. (Inr (), w)),
      docker_pull = (\<lambda>i w. (Inr (), w)),
      docker_run = (\<lambda>ro (runs, probes). (run_script runs, (Suc runs, probes))),
      docker_start = (\<lambda>c w. (start_result, w)),
      docker_restart = (\<lambda>c w. (Inr (), w)),
      docker_remove = (\<lambda>c w. (remove_script c, w)),
      docker_exec = (\<lambda>c argv w. (Inr (), w)),
      ingress_cleanup = (\<lambda>sid w. (cleanup_result, w)),
      setTimeout = (\<lambda>ms w. w),
      fs_stat = (\<lambda>p w. (stat_result, w)),
      fs_mkdir = (\<lambda>p w. (Inr (), w)),
      fs_access = (\<lambda>p w. (Inl (JsError ''ENOENT'' None), w)),
      fs_writeFile = (\<lambda>p c w. (Inr (), w)),
      fs_rm = (\<lambda>p w. (Inr (), w)),
      execAsync = (\<lambda>cmd cwd tmo w.
        (Inl (JsError (''Command failed: '' @ cmd) (Some ''fatal: unable to access the remote'')), w))\<rparr>"

definition locked_error :: thrown where
  "locked_error = JsError ''Command failed: docker run'' (Some ''layer is locked'')"

definition conflict_error :: thrown where
  "conflict_error = JsError ''Command failed: docker run'' (Some ''Conflict. The name is already in use'')"

definition example_run :: RunOptions where
  "example_run = \<lparr>name = ''oc-sess-s1'', image = ''agent:latest'', network = ''oc-internal'',
     env = [], mounts = [], extraHosts = [], args = []\<rparr>"

definition always_locked :: "(nat \<times> nat) collaborators" where
  "always_locked = scripted (\<lambda>i. Inl locked_error) (\<lambda>i. Inr None) (Inr ()) (\<lambda>c. Inr ()) (Inr ()) (Inr True)"

definition locked_twice :: "(nat \<times> nat) collaborators" where
  "locked_twice = scripted (\<lambda>i. if i < 2 then Inl locked_error else Inr ()) (\<lambda>i. Inr None) (Inr ())
     (\<lambda>c. Inr ()) (Inr ()) (Inr True)"

definition daemon_error :: thrown where
  "daemon_error = JsError ''Command failed: docker rm -f'' (Some ''Cannot connect to the Docker daemon'')"

definition gone_error :: thrown where
  "gone_error = JsError ''Command failed: docker rm -f'' (Some ''Error: No such container'')"






definition conflict_then_ok :: "(nat \<times> nat) collaborators" where
  "conflict_then_ok = scripted (\<lambda>i. if i = 0 then Inl conflict_error else Inr ())
     (\<lambda>i. if i = 0 then Inr None else Inr (Some True)) (Inl daemon_error)
     (\<lambda>c. Inr ()) (Inr ()) (Inr True)"

definition restarted :: "(nat \<times> nat) collaborators" where
  "restarted = scripted (\<lambda>i. Inr ()) (\<lambda>i. Inr (Some True)) (Inr ())
     (\<lambda>c. Inr ()) (Inr ()) (Inr True)"





section \<open>Terminal proxy (the proxy server in presence-broadcaster.ts)\<close>

text \<open>A WebSocket message: its data and whether it is binary.\<close>

type_synonym frame = "string \<times> bool"

datatype ready_state = CONNECTING | OPEN | CLOSING | CLOSED

text \<open>
  The events of the proxy: the calls it awaits, with their outcome; the client messages that
  reach the socket (\<open>Receive\<close>); and what the proxy does to its sockets and servers. A
  WebSocket to a container is known by a number.
\<close>

datatype proxy_event =
    GetSession string "thrown + string option"
  | FindFirstAdmin "thrown + string option"
  | FindFirstSession string string "thrown + string option option"
  | Connect string "string list" "nat option" "thrown + nat option"
  | CreateBridge "string list" "thrown + nat"
  | ServerClose nat
  | Delay nat
  | Receive frame
  | Send nat frame
  | SocketClose nat string

text \<open>
  What the proxy calls outside itself; every call is taken to settle.
  \<open>ws_connect url protocols timeout\<close> is the promise around
  \<^verbatim>\<open>new WebSocket(url, protocols)\<close>: the socket once it is open, nothing after an
  error or after the timeout when there is one. \<open>net_listen argv\<close> is the loopback server of
  \<^verbatim>\<open>createDockerExecBridge\<close>, which pipes its one connection through \<^verbatim>\<open>docker\<close> run with
  \<open>argv\<close>, and yields its port. \<open>client_frames\<close> gives the client messages that reach the
  socket while the handler is suspended at an \<^verbatim>\<open>await\<close>.
\<close>

record 'w proxy_env =
  auth_getSession :: "string \<Rightarrow> 'w \<Rightarrow> (thrown + string option) \<times> 'w"
  db_user_findFirst :: "'w \<Rightarrow> (thrown + string option) \<times> 'w"
  db_terminalSession_findFirst :: "string \<Rightarrow> string \<Rightarrow> 'w \<Rightarrow> (thrown + string option option) \<times> 'w"
  ws_connect :: "string \<Rightarrow> string list \<Rightarrow> nat option \<Rightarrow> 'w \<Rightarrow> (thrown + nat option) \<times> 'w"
  net_listen :: "string list \<Rightarrow> 'w \<Rightarrow> (thrown + nat) \<times> 'w"
  server_close :: "nat \<Rightarrow> 'w \<Rightarrow> 'w"
  timer :: "nat \<Rightarrow> 'w \<Rightarrow> 'w"
  client_frames :: "'w \<Rightarrow> frame list \<times> 'w"
  ws_readyState :: "nat \<Rightarrow> 'w \<Rightarrow> ready_state"
  ws_send :: "nat \<Rightarrow> frame \<Rightarrow> 'w \<Rightarrow> 'w"
  ws_close :: "nat \<Rightarrow> string \<Rightarrow> 'w \<Rightarrow> 'w"

record proxy_settings =
  DISABLE_AUTH :: bool
  TTYD_PORT :: nat
  normalizeContainerName :: "string \<Rightarrow> string"

text \<open>A number in a template literal: its decimal digits.\<close>

fun decimal :: "nat \<Rightarrow> string" where
  "decimal n = (if n < 10 then [''0123456789'' ! n] else decimal (n div 10) @ [''0123456789'' ! (n mod 10)])"

declare decimal.simps [simp del]

text \<open>
  The \<^verbatim>\<open>message\<close> listeners of the client socket are the two the handler installs: the
  one that pushes to \<^verbatim>\<open>clientMessageBuffer\<close> and the one that forwards to the upstream.
  One connection is the world outside, the listeners installed, in order, and the buffer.
\<close>

datatype listener = bufferClientMessage | forwardUpstream nat

record 'w connection =
  world :: 'w
  message_listeners :: "listener list"
  clientMessageBuffer :: "frame list"

text \<open>\<^verbatim>\<open>if (upstream.readyState === WebSocket.OPEN) upstream.send(data, { binary: isBinary })\<close>.\<close>

definition send_if_open ::
  "'w proxy_env \<Rightarrow> nat \<Rightarrow> frame \<Rightarrow> 'w connection \<Rightarrow> 'w connection \<times> proxy_event list" where
  "send_if_open E up f c =
     (if ws_readyState E up (world c) = OPEN
      then (c\<lparr>world := ws_send E up f (world c)\<rparr>, [Send up f])
      else (c, []))"

fun call_listener ::
  "'w proxy_env \<Rightarrow> frame \<Rightarrow> listener \<Rightarrow> 'w connection \<Rightarrow> 'w connection \<times> proxy_event list" where
  "call_listener E f bufferClientMessage c =
     (c\<lparr>clientMessageBuffer := clientMessageBuffer c @ [f]\<rparr>, [])"
| "call_listener E f (forwardUpstream up) c = send_if_open E up f c"

fun call_each ::
  "'w proxy_env \<Rightarrow> frame \<Rightarrow> listener list \<Rightarrow> 'w connection \<Rightarrow> 'w connection \<times> proxy_event list" where
  "call_each E f [] c = (c, [])"
| "call_each E f (l # ls) c =
     (case call_listener E f l c of (c1, t1) \<Rightarrow>
        (case call_each E f ls c1 of (c2, t2) \<Rightarrow> (c2, t1 @ t2)))"

text \<open>
  A client message reaches the socket: the listeners installed at that moment are called in
  order. With no listener the message is gone.
\<close>

definition emit_message ::
  "'w proxy_env \<Rightarrow> frame \<Rightarrow> 'w connection \<Rightarrow> 'w connection \<times> proxy_event list" where
  "emit_message E f c =
     (case call_each E f (message_listeners c) c of (c1, t) \<Rightarrow> (c1, Receive f # t))"

fun deliver ::
  "'w proxy_env \<Rightarrow> frame list \<Rightarrow> 'w connection \<Rightarrow> 'w connection \<times> proxy_event list" where
  "deliver E [] c = (c, [])"
| "deliver E (f # fs) c =
     (case emit_message E f c of (c1, t1) \<Rightarrow>
        (case deliver E fs c1 of (c2, t2) \<Rightarrow> (c2, t1 @ t2)))"

text \<open>
  An \<^verbatim>\<open>await\<close> of a call outside: the handler is suspended, the client messages that arrive
  meanwhile are delivered to the listeners, then the handler goes on with the outcome of the
  call.
\<close>

definition suspend ::
  "'w proxy_env \<Rightarrow> ('w \<Rightarrow> (thrown + 'a) \<times> 'w) \<Rightarrow> ((thrown + 'a) \<Rightarrow> proxy_event)
     \<Rightarrow> ('w connection, proxy_event, 'a) traced" where
  "suspend E f ev = (\<lambda>c.
     case f (world c) of (r, x1) \<Rightarrow>
       (case client_frames E x1 of (fs, x2) \<Rightarrow>
          (case deliver E fs (c\<lparr>world := x2\<rparr>) of (c', t) \<Rightarrow> (r, c', t @ [ev r]))))"

definition delay :: "'w proxy_env \<Rightarrow> nat \<Rightarrow> ('w connection, proxy_event, unit) traced" where
  "delay E ms = suspend E (\<lambda>x. (Inr (), timer E ms x)) (\<lambda>_. Delay ms)"

definition socket_close ::
  "'w proxy_env \<Rightarrow> nat \<Rightarrow> string \<Rightarrow> ('w connection, proxy_event, unit) traced" where
  "socket_close E code reason = (\<lambda>c.
     (Inr (), c\<lparr>world := ws_close E code reason (world c)\<rparr>, [SocketClose code reason]))"

definition bridge_cleanup :: "'w proxy_env \<Rightarrow> nat \<Rightarrow> ('w connection, proxy_event, unit) traced" where
  "bridge_cleanup E port = (\<lambda>c.
     (Inr (), c\<lparr>world := server_close E port (world c)\<rparr>, [ServerClose port]))"

text \<open>\<^verbatim>\<open>socket.on("message", l)\<close> and \<^verbatim>\<open>socket.off("message", l)\<close>, which removes the instance added last.\<close>

definition socket_on :: "listener \<Rightarrow> ('w connection, proxy_event, unit) traced" where
  "socket_on l = (\<lambda>c. (Inr (), c\<lparr>message_listeners := message_listeners c @ [l]\<rparr>, []))"

definition socket_off :: "listener \<Rightarrow> ('w connection, proxy_event, unit) traced" where
  "socket_off l = (\<lambda>c.
     (Inr (), c\<lparr>message_listeners := rev (remove1 l (rev (message_listeners c)))\<rparr>, []))"

subsection \<open>Authentication and access\<close>

definition getUserIdFromCookies ::
  "'w proxy_env \<Rightarrow> string option \<Rightarrow> ('w connection, proxy_event, string option) traced" where
  "getUserIdFromCookies E cookieHeader =
     (case cookieHeader of
        None \<Rightarrow> pure None
      | Some h \<Rightarrow> if h = [] then pure None else suspend E (auth_getSession E h) (GetSession h))"

definition getAdminUserId :: "'w proxy_env \<Rightarrow> ('w connection, proxy_event, string option) traced" where
  "getAdminUserId E = suspend E (db_user_findFirst E) FindFirstAdmin"

definition resolveTerminalAccess ::
  "'w proxy_env \<Rightarrow> string \<Rightarrow> string \<Rightarrow> ('w connection, proxy_event, string option) traced" where
  "resolveTerminalAccess E sid uid =
     andThen (suspend E (db_terminalSession_findFirst E sid uid)
                (FindFirstSession sid uid))
       (\<lambda>session. pure (case session of None \<Rightarrow> None | Some container \<Rightarrow> container))"

subsection \<open>The upstream connection\<close>

definition docker_exec_argv :: "proxy_settings \<Rightarrow> string \<Rightarrow> nat \<Rightarrow> string list" where
  "docker_exec_argv S container containerPort =
     [''exec'', ''-i'', normalizeContainerName S container, ''nc'', ''localhost'',
      decimal containerPort]"

definition createDockerExecBridge ::
  "'w proxy_env \<Rightarrow> proxy_settings \<Rightarrow> string \<Rightarrow> nat \<Rightarrow> ('w connection, proxy_event, nat) traced" where
  "createDockerExecBridge E S container containerPort =
     suspend E (net_listen E (docker_exec_argv S container containerPort))
       (CreateBridge (docker_exec_argv S container containerPort))"

definition direct_url :: "string \<Rightarrow> nat \<Rightarrow> string" where
  "direct_url container ttydPort = ''ws://'' @ container @ '':'' @ decimal ttydPort @ ''/ws''"

definition bridge_url :: "nat \<Rightarrow> string" where
  "bridge_url port = ''ws://127.0.0.1:'' @ decimal port @ ''/ws''"

definition tryOnce ::
  "'w proxy_env \<Rightarrow> proxy_settings \<Rightarrow> string \<Rightarrow> nat \<Rightarrow> string list
     \<Rightarrow> ('w connection, proxy_event, nat option) traced" where
  "tryOnce E S container ttydPort protocols =
     andThen (suspend E (ws_connect E (direct_url container ttydPort) protocols (Some 1500))
                (Connect (direct_url container ttydPort) protocols (Some 1500)))
       (\<lambda>direct.
          case direct of
            Some ws \<Rightarrow> pure (Some ws)
          | None \<Rightarrow>
              andThen (createDockerExecBridge E S container ttydPort) (\<lambda>port.
              andThen (suspend E (ws_connect E (bridge_url port) protocols None)
                         (Connect (bridge_url port) protocols None))
                (\<lambda>ws. case ws of
                         Some u \<Rightarrow> pure (Some u)
                       | None \<Rightarrow> andThen (bridge_cleanup E port) (\<lambda>_. pure None))))"

definition exhausted :: "string \<Rightarrow> nat \<Rightarrow> nat \<Rightarrow> thrown" where
  "exhausted container ttydPort maxAttempts =
     JsError (''Could not connect to '' @ container @ '':'' @ decimal ttydPort @ '' after ''
              @ decimal maxAttempts @ '' attempts'') None"

function connect_loop ::
  "'w proxy_env \<Rightarrow> proxy_settings \<Rightarrow> string \<Rightarrow> nat \<Rightarrow> string list \<Rightarrow> nat \<Rightarrow> nat \<Rightarrow> nat
     \<Rightarrow> ('w connection, proxy_event, nat) traced" where
  "connect_loop E S container ttydPort protocols maxAttempts retryDelayMs attempt c =
     (if attempt \<le> maxAttempts then
        (case tryOnce E S container ttydPort protocols c of
           (Inl e, c1, t1) \<Rightarrow> (Inl e, c1, t1)
         | (Inr (Some ws), c1, t1) \<Rightarrow> (Inr ws, c1, t1)
         | (Inr None, c1, t1) \<Rightarrow>
             (case (if attempt < maxAttempts then delay E retryDelayMs else pure ()) c1 of
                (Inl e, c2, t2) \<Rightarrow> (Inl e, c2, t1 @ t2)
              | (Inr u, c2, t2) \<Rightarrow>
                  (case connect_loop E S container ttydPort protocols maxAttempts retryDelayMs
                          (attempt + 1) c2 of
                     (r, c3, t3) \<Rightarrow> (r, c3, t1 @ t2 @ t3))))
      else (Inl (exhausted container ttydPort maxAttempts), c, []))"
  by pat_completeness auto
termination
  by (relation "measure (\<lambda>(E, S, n, p, ps, maxAttempts, d, attempt, c). Suc maxAttempts - attempt)")
     auto

declare connect_loop.simps [simp del]

definition connectToContainerWs ::
  "'w proxy_env \<Rightarrow> proxy_settings \<Rightarrow> string \<Rightarrow> nat \<Rightarrow> string list \<Rightarrow> nat \<Rightarrow> nat
     \<Rightarrow> ('w connection, proxy_event, nat) traced" where
  "connectToContainerWs E S container ttydPort protocols maxAttempts retryDelayMs =
     connect_loop E S container ttydPort protocols maxAttempts retryDelayMs 1"

subsection \<open>The handler of \<^verbatim>\<open>/terminal/:sessionId\<close>\<close>

definition requested_protocols :: "string option \<Rightarrow> string list" where
  "requested_protocols header =
     (case header of None \<Rightarrow> [''tty''] | Some h \<Rightarrow> map trim (split_on CHR '','' h))"

fun flush ::
  "'w proxy_env \<Rightarrow> nat \<Rightarrow> frame list \<Rightarrow> 'w connection \<Rightarrow> 'w connection \<times> proxy_event list" where
  "flush E up [] c = (c, [])"
| "flush E up (f # fs) c =
     (case send_if_open E up f c of (c1, t1) \<Rightarrow>
        (case flush E up fs c1 of (c2, t2) \<Rightarrow> (c2, t1 @ t2)))"

definition flush_buffer :: "'w proxy_env \<Rightarrow> nat \<Rightarrow> ('w connection, proxy_event, unit) traced" where
  "flush_buffer E up = (\<lambda>c. case flush E up (clientMessageBuffer c) c of (c', t) \<Rightarrow> (Inr (), c', t))"

text \<open>
  From the installation of the buffer on: the connection to the upstream with the default
  10 attempts and 500 ms, the close with 1011 when it throws, and the swap of the listeners.
  The listeners installed last, for the messages, the close and the errors of the upstream
  and for the close and the errors of the client, handle no client message and are left out,
  as is the logging.
\<close>

definition bridge_upstream ::
  "'w proxy_env \<Rightarrow> proxy_settings \<Rightarrow> string \<Rightarrow> string list \<Rightarrow> ('w connection, proxy_event, unit) traced" where
  "bridge_upstream E S container protocols =
     andThen (socket_on bufferClientMessage) (\<lambda>_.
     andThen (try_catch
                (andThen (connectToContainerWs E S container (TTYD_PORT S) protocols 10 500)
                   (\<lambda>up. pure (Some up)))
                (\<lambda>err. andThen (socket_close E 1011 ''Could not connect to terminal'')
                          (\<lambda>_. pure None)))
       (\<lambda>upstream.
          case upstream of
            None \<Rightarrow> pure ()
          | Some up \<Rightarrow>
              andThen (socket_off bufferClientMessage) (\<lambda>_.
              andThen (flush_buffer E up) (\<lambda>_.
              socket_on (forwardUpstream up)))))"

definition terminal_handler ::
  "'w proxy_env \<Rightarrow> proxy_settings \<Rightarrow> string \<Rightarrow> string option \<Rightarrow> string option
     \<Rightarrow> ('w connection, proxy_event, unit) traced" where
  "terminal_handler E S sid cookie protocolHeader =
     andThen (if DISABLE_AUTH S then getAdminUserId E else getUserIdFromCookies E cookie)
       (\<lambda>uid.
          case uid of
            None \<Rightarrow> socket_close E 1008 ''Unauthorized''
          | Some u \<Rightarrow>
              if u = [] then socket_close E 1008 ''Unauthorized''
              else
                andThen (resolveTerminalAccess E sid u) (\<lambda>container.
                  case container of
                    None \<Rightarrow>
                      socket_close E 1008 ''Session not found, not running, or access denied''
                  | Some n \<Rightarrow>
                      if n = [] then
                        socket_close E 1008 ''Session not found, not running, or access denied''
                      else bridge_upstream E S n (requested_protocols protocolHeader)))"

text \<open>
  A connection from its opening: the handler runs on a socket with no listener, and the
  client messages that arrive once the handler is done reach the listeners it left.
\<close>

definition terminal_connection ::
  "'w proxy_env \<Rightarrow> proxy_settings \<Rightarrow> string \<Rightarrow> string option \<Rightarrow> string option
     \<Rightarrow> 'w \<Rightarrow> (thrown + unit) \<times> 'w connection \<times> proxy_event list" where
  "terminal_connection E S sid cookie protocolHeader w =
     (case terminal_handler E S sid cookie protocolHeader
             \<lparr>world = w, message_listeners = [], clientMessageBuffer = []\<rparr> of
        (r, c1, t1) \<Rightarrow>
          (case client_frames E (world c1) of (fs, x2) \<Rightarrow>
             (case deliver E fs (c1\<lparr>world := x2\<rparr>) of (c2, t2) \<Rightarrow> (r, c2, t1 @ t2))))"

subsection \<open>Reading the traces of the proxy\<close>

text \<open>
  Traffic is the client messages received and the messages sent upstream; the steps of a
  trace are its other events.
\<close>

fun is_traffic :: "proxy_event \<Rightarrow> bool" where
  "is_traffic (Receive f) = True"
| "is_traffic (Send up f) = True"
| "is_traffic _ = False"

definition steps :: "proxy_event list \<Rightarrow> proxy_event list" where
  "steps t = filter (\<lambda>ev. \<not> is_traffic ev) t"

text \<open>
  The steps of an attempt that yields no socket: the direct connection fails or times out,
  the bridge is created on port \<open>q\<close>, the connection through it fails, the bridge is closed.
\<close>

definition failed_attempt ::
  "proxy_settings \<Rightarrow> string \<Rightarrow> nat \<Rightarrow> string list \<Rightarrow> nat \<Rightarrow> proxy_event list" where
  "failed_attempt S n p ps q =
     [Connect (direct_url n p) ps (Some 1500) (Inr None),
      CreateBridge (docker_exec_argv S n p) (Inr q),
      Connect (bridge_url q) ps None (Inr None),
      ServerClose q]"

text \<open>
  The steps of an attempt that ends the loop with \<open>r\<close>: a connection, direct or through
  the bridge, that opened or threw, or a bridge that could not be created.
\<close>

fun settles :: "thrown + nat option \<Rightarrow> thrown + nat \<Rightarrow> bool" where
  "settles (Inl e) r = (r = Inl e)"
| "settles (Inr None) r = False"
| "settles (Inr (Some u)) r = (r = Inr u)"

definition final_attempt ::
  "proxy_settings \<Rightarrow> string \<Rightarrow> nat \<Rightarrow> string list \<Rightarrow> proxy_event list \<Rightarrow> thrown + nat \<Rightarrow> bool" where
  "final_attempt S n p ps final r =
     ((\<exists>res. settles res r \<and> final = [Connect (direct_url n p) ps (Some 1500) res])
      \<or> (\<exists>e. r = Inl e
            \<and> final = [Connect (direct_url n p) ps (Some 1500) (Inr None),
                       CreateBridge (docker_exec_argv S n p) (Inl e)])
      \<or> (\<exists>q res. settles res r
            \<and> final = [Connect (direct_url n p) ps (Some 1500) (Inr None),
                       CreateBridge (docker_exec_argv S n p) (Inr q),
                       Connect (bridge_url q) ps None res]))"

text \<open>Connections, connections with an open timeout, and connections that opened.\<close>

fun is_Connect :: "proxy_event \<Rightarrow> bool" where
  "is_Connect (Connect url ps tmo r) = True"
| "is_Connect _ = False"

fun timed_connect :: "proxy_event \<Rightarrow> bool" where
  "timed_connect (Connect url ps (Some ms) r) = True"
| "timed_connect _ = False"

fun opened :: "proxy_event \<Rightarrow> bool" where
  "opened (Connect url ps tmo (Inr (Some u))) = True"
| "opened _ = False"

text \<open>The client messages received and the messages sent upstream, in order.\<close>

fun received :: "proxy_event list \<Rightarrow> frame list" where
  "received [] = []"
| "received (Receive f # t) = f # received t"
| "received (ev # t) = received t"

fun sent :: "proxy_event list \<Rightarrow> frame list" where
  "sent [] = []"
| "sent (Send up f # t) = f # sent t"
| "sent (ev # t) = sent t"

text \<open>
  A task run under the buffering listener leaves it in place, appends every message
  received to the buffer and sends nothing upstream.
\<close>

definition buffers :: "('w connection, proxy_event, 'a) traced \<Rightarrow> bool" where
  "buffers m =
     (\<forall>c r c' t. m c = (r, c', t) \<and> message_listeners c = [bufferClientMessage]
        \<longrightarrow> message_listeners c' = [bufferClientMessage]
            \<and> clientMessageBuffer c' = clientMessageBuffer c @ received t \<and> sent t = [])"

subsection \<open>Scripted proxy for the closed examples\<close>

text \<open>
  The world of the examples counts the suspensions so far. The scripts give the outcome
  of a connection made at that count and the client messages that arrive during that
  suspension; the session cookie is valid, the session runs in \<open>agent-1\<close>, the bridge
  listens on port 40000 and an upstream socket stays open.
\<close>

definition example_proxy_settings :: proxy_settings where
  "example_proxy_settings = \<lparr>DISABLE_AUTH = False, TTYD_PORT = 7681, normalizeContainerName = (\<lambda>n. n)\<rparr>"

definition scripted_proxy :: "(nat \<Rightarrow> nat option) \<Rightarrow> (nat \<Rightarrow> frame list) \<Rightarrow> nat proxy_env" where
  "scripted_proxy opens arriving =
     \<lparr>auth_getSession = (\<lambda>h n. (Inr (Some ''u1''), n)),
      db_user_findFirst = (\<lambda>n. (Inr (Some ''admin''), n)),
      db_terminalSession_findFirst = (\<lambda>s u n. (Inr (Some (Some ''agent-1'')), n)),
      ws_connect = (\<lambda>url ps tmo n. (Inr (opens n), n)),
      net_listen = (\<lambda>argv n. (Inr 40000, n)),
      server_close = (\<lambda>p n. n),
      timer = (\<lambda>ms n. n),
      client_frames = (\<lambda>n. (arriving n, Suc n)),
      ws_readyState = (\<lambda>up n. OPEN),
      ws_send = (\<lambda>up f n. n),
      ws_close = (\<lambda>code reason n. n)\<rparr>"

definition unreachable :: "nat proxy_env" where
  "unreachable = scripted_proxy (\<lambda>n. None) (\<lambda>n. [])"

definition fresh :: "nat connection" where
  "fresh = \<lparr>world = 0, message_listeners = [], clientMessageBuffer = []\<rparr>"

definition early_frame :: "nat proxy_env" where
  "early_frame = scripted_proxy (\<lambda>n. Some 7)
     (\<lambda>n. if n = 0 then [(''hello'', False)] else if n = 2 then [(''a'', False)]
          else if n = 3 then [(''b'', False)] else [])"

section \<open>Theorems\<close>

subsection \<open>Reasoning about tasks\<close>

lemmas task_simps = andThen_def try_catch_def await_def pure_def raise_def sleep_def

lemma locked_error_facts: "layer_locked locked_error" "\<not> name_conflict locked_error"
  by (simp_all add: layer_locked_def name_conflict_def locked_error_def)

lemma pure_apply: "pure x w = (Inr x, w, [])"
  by (simp add: pure_def)

lemma raise_apply: "raise e w = (Inl e, w, [])"
  by (simp add: raise_def)

lemma sleep_apply: "sleep E ms w = (Inr (), setTimeout E ms w, [Sleep ms])"
  by (simp add: sleep_def)

lemma awaitE:
  assumes "await f ev w = (r, w', t)"
  obtains "f w = (r, w')" "t = [ev r]"
  using assms by (auto simp: await_def split: prod.splits)

lemma andThenE:
  assumes "andThen m k w = (r, w', t)"
  obtains (throws) e where "m w = (Inl e, w', t)" "r = Inl e"
  | (continues) x w1 t1 t2 where "m w = (Inr x, w1, t1)" "k x w1 = (r, w', t2)" "t = t1 @ t2"
  using assms by (auto simp: andThen_def split: prod.splits sum.splits)

lemma try_catchE:
  assumes "try_catch m h w = (r, w', t)"
  obtains (caught) e w1 t1 t2 where "m w = (Inl e, w1, t1)" "h e w1 = (r, w', t2)" "t = t1 @ t2"
  | (passes) x where "m w = (Inr x, w', t)" "r = Inr x"
  using assms by (auto simp: try_catch_def split: prod.splits sum.splits)

lemma not_Inl_unit: "\<forall>e. r \<noteq> Inl e \<Longrightarrow> r = Inr ()" for r :: "'a + unit"
  by (cases r) auto

lemma safeRemove_cases:
  assumes "safeRemove E c w = (r, w', t)"
  obtains res where "t = [Remove c res]" "r = Inr () \<or> (\<exists>e. r = Inl e \<and> res = Inl e)"
  using assms unfolding safeRemove_def
  by (elim try_catchE awaitE) (auto simp: pure_apply raise_apply split: if_splits)

lemma recovery_cases:
  assumes "try_catch (await (docker_start E c) (Start c))
                 (\<lambda>_. andThen (safeRemove E c) (\<lambda>_.
                       andThen (ensureInternalNetwork E S) (\<lambda>_.
                       await (docker_run E ro) (Run ro)))) w = (r, w', t)"
  shows "t \<noteq> [] \<and> \<not> list_ex is_Sleep t \<and> length (filter is_Run t) \<le> 1
       \<and> (\<forall>ro' res. Run ro' res \<in> set t \<longrightarrow> ro' = ro)
       \<and> (r = Inr () \<or> (\<exists>e'. r = Inl e' \<and> thrown_by (last t) = Some e'))"
  using assms unfolding ensureInternalNetwork_def
  by (elim try_catchE andThenE awaitE safeRemove_cases) (auto dest: not_Inl_unit)

lemma run_attempt_cases:
  assumes "run_attempt E S c ro k w = (r, w', t)"
  shows "(r = Inr True \<and> t = [Run ro (Inr ())])
       \<or> (\<exists>e. r = Inr False \<and> t = [Run ro (Inl e), Sleep 5000] \<and> layer_locked e \<and> \<not> name_conflict e
              \<and> k < MAX_LAYER_RETRIES)
       \<or> (\<exists>e. r = Inl e \<and> t = [Run ro (Inl e)] \<and> \<not> name_conflict e)
       \<or> (\<exists>e rest. t = Run ro (Inl e) # rest \<and> name_conflict e \<and> rest \<noteq> [] \<and> \<not> list_ex is_Sleep rest
              \<and> length (filter is_Run rest) \<le> 1
              \<and> (\<forall>ro' res. Run ro' res \<in> set rest \<longrightarrow> ro' = ro)
              \<and> (r = Inr True \<or> (\<exists>e'. r = Inl e' \<and> thrown_by (last rest) = Some e')))"
  using assms unfolding run_attempt_def
proof (elim try_catchE)
  fix e w1 t1 t2
  assume m: "andThen (await (docker_run E ro) (Run ro)) (\<lambda>_. pure True) w = (Inl e, w1, t1)"
    and h: "(if name_conflict e
         then andThen
               (try_catch (await (docker_start E c) (Start c))
                 (\<lambda>_. andThen (safeRemove E c)
                        (\<lambda>_. andThen (ensureInternalNetwork E S)
                               (\<lambda>_. await (docker_run E ro) (Run ro)))))
               (\<lambda>_. pure True)
         else if layer_locked e \<and> k < MAX_LAYER_RETRIES
              then andThen (sleep E 5000) (\<lambda>_. pure False) else raise e)
         w1 = (r, w', t2)"
    and t: "t = t1 @ t2"
  from m have t1: "t1 = [Run ro (Inl e)]"
    by (elim andThenE awaitE) (auto simp: pure_apply)
  show ?thesis
  proof (cases "name_conflict e")
    case True
    with h obtain r0 w0 t0 where rc: "try_catch (await (docker_start E c) (Start c))
                 (\<lambda>_. andThen (safeRemove E c)
                        (\<lambda>_. andThen (ensureInternalNetwork E S)
                               (\<lambda>_. await (docker_run E ro) (Run ro)))) w1 = (r0, w0, t0)"
      and rr: "(r0 = Inr () \<and> r = Inr True \<or> (\<exists>e'. r0 = Inl e' \<and> r = Inl e'))" and tt: "t2 = t0"
      by (auto elim!: andThenE simp: pure_apply)
    from recovery_cases [OF rc] rr tt t t1 True show ?thesis by auto
  next
    case False
    with h t t1 show ?thesis
      by (auto simp: pure_apply raise_apply sleep_apply elim!: andThenE split: if_splits)
  qed
next
  fix x
  assume "andThen (await (docker_run E ro) (Run ro)) (\<lambda>_. pure True) w = (Inr x, w', t)" "r = Inr x"
  then show ?thesis
    by (elim andThenE awaitE) (auto simp: pure_apply)
qed

subsection \<open>The create loop\<close>

lemma create_loop_launched: "create_loop E S c ro a True w = (Inr (), w, [])"
  by (simp add: create_loop.simps)

lemma retries_Nil: "retries ro [] = []"
  by (simp add: retries_def)

lemma retries_Cons: "retries ro (e # es) = Run ro (Inl e) # Sleep 5000 # retries ro es"
  by (simp add: retries_def)

lemma create_loop_shape:
  assumes "create_loop E S c ro a False w = (r, w', t)" "a \<le> MAX_LAYER_RETRIES"
  shows "\<exists>es final. t = retries ro es @ final \<and> length es + a \<le> MAX_LAYER_RETRIES
           \<and> (\<forall>e \<in> set es. layer_locked e \<and> \<not> name_conflict e) \<and> last_attempt ro final r"
  using assms
proof (induction "MAX_LAYER_RETRIES - a" arbitrary: a w r w' t)
  case 0
  then have a: "a = MAX_LAYER_RETRIES" by simp
  obtain r1 w1 t1 where ra: "run_attempt E S c ro a w = (r1, w1, t1)"
    by (cases "run_attempt E S c ro a w") auto
  from run_attempt_cases [OF ra] a
  consider (ok) "r1 = Inr True" "t1 = [Run ro (Inr ())]"
    | (err) e where "r1 = Inl e" "t1 = [Run ro (Inl e)]" "\<not> name_conflict e"
    | (conflict) e rest where "t1 = Run ro (Inl e) # rest" "name_conflict e" "rest \<noteq> []"
        "\<not> list_ex is_Sleep rest" "length (filter is_Run rest) \<le> 1"
        "\<forall>ro' res. Run ro' res \<in> set rest \<longrightarrow> ro' = ro"
        "r1 = Inr True \<or> (\<exists>e'. r1 = Inl e' \<and> thrown_by (last rest) = Some e')"
    by auto
  then show ?case
  proof cases
    case ok
    with ra "0.prems" have "r = Inr ()" "t = [Run ro (Inr ())]"
      by (auto simp: create_loop.simps [of E S c ro a False] create_loop_launched)
    then have "t = retries ro [] @ [Run ro (Inr ())]" "last_attempt ro [Run ro (Inr ())] r"
      by (auto simp: retries_Nil last_attempt_def)
    then show ?thesis by (metis empty_iff list.set(1) list.size(3) add_0 "0.prems"(2))
  next
    case err
    with ra "0.prems" have "r = Inl e" "t = [Run ro (Inl e)]"
      by (auto simp: create_loop.simps [of E S c ro a False])
    with err have "t = retries ro [] @ [Run ro (Inl e)]" "last_attempt ro [Run ro (Inl e)] r"
      by (auto simp: retries_Nil last_attempt_def)
    then show ?thesis by (metis empty_iff list.set(1) list.size(3) add_0 "0.prems"(2))
  next
    case conflict
    with ra "0.prems" have "t = t1" "r = Inr () \<or> (\<exists>e'. r = Inl e' \<and> thrown_by (last rest) = Some e')"
      by (auto simp: create_loop.simps [of E S c ro a False] create_loop_launched)
    with conflict have "t = retries ro [] @ t1" "last_attempt ro t1 r"
      by (auto simp: retries_Nil last_attempt_def)
    then show ?thesis by (metis empty_iff list.set(1) list.size(3) add_0 "0.prems"(2))
  qed
next
  case (Suc n)
  then have a: "a < MAX_LAYER_RETRIES" by simp
  obtain r1 w1 t1 where ra: "run_attempt E S c ro a w = (r1, w1, t1)"
    by (cases "run_attempt E S c ro a w") auto
  from run_attempt_cases [OF ra]
  consider (ok) "r1 = Inr True" "t1 = [Run ro (Inr ())]"
    | (retry) e where "r1 = Inr False" "t1 = [Run ro (Inl e), Sleep 5000]" "layer_locked e"
        "\<not> name_conflict e"
    | (err) e where "r1 = Inl e" "t1 = [Run ro (Inl e)]" "\<not> name_conflict e"
    | (conflict) e rest where "t1 = Run ro (Inl e) # rest" "name_conflict e" "rest \<noteq> []"
        "\<not> list_ex is_Sleep rest" "length (filter is_Run rest) \<le> 1"
        "\<forall>ro' res. Run ro' res \<in> set rest \<longrightarrow> ro' = ro"
        "r1 = Inr True \<or> (\<exists>e'. r1 = Inl e' \<and> thrown_by (last rest) = Some e')"
    by auto
  then show ?case
  proof cases
    case ok
    with ra Suc.prems have "r = Inr ()" "t = [Run ro (Inr ())]"
      by (auto simp: create_loop.simps [of E S c ro a False] create_loop_launched)
    then have "t = retries ro [] @ [Run ro (Inr ())]" "last_attempt ro [Run ro (Inr ())] r"
      by (auto simp: retries_Nil last_attempt_def)
    then show ?thesis by (metis empty_iff list.set(1) list.size(3) add_0 Suc.prems(2))
  next
    case retry
    with ra Suc.prems obtain t2 where
      rec: "create_loop E S c ro (a + 1) False w1 = (r, w', t2)" and t: "t = t1 @ t2"
      by (auto simp: create_loop.simps [of E S c ro a False] split: prod.splits)
    have "n = MAX_LAYER_RETRIES - (a + 1)" using Suc.hyps(2) by simp
    from Suc.hyps(1) [OF this rec] a obtain es final where
      IH: "t2 = retries ro es @ final" "length es + (a + 1) \<le> MAX_LAYER_RETRIES"
        "\<forall>e \<in> set es. layer_locked e \<and> \<not> name_conflict e" "last_attempt ro final r"
      by auto
    from t retry IH have "t = retries ro (e # es) @ final" "length (e # es) + a \<le> MAX_LAYER_RETRIES"
      "\<forall>x \<in> set (e # es). layer_locked x \<and> \<not> name_conflict x"
      by (auto simp: retries_Cons)
    with IH(4) show ?thesis by blast
  next
    case err
    with ra Suc.prems have "r = Inl e" "t = [Run ro (Inl e)]"
      by (auto simp: create_loop.simps [of E S c ro a False])
    with err have "t = retries ro [] @ [Run ro (Inl e)]" "last_attempt ro [Run ro (Inl e)] r"
      by (auto simp: retries_Nil last_attempt_def)
    then show ?thesis by (metis empty_iff list.set(1) list.size(3) add_0 Suc.prems(2))
  next
    case conflict
    with ra Suc.prems have "t = t1" "r = Inr () \<or> (\<exists>e'. r = Inl e' \<and> thrown_by (last rest) = Some e')"
      by (auto simp: create_loop.simps [of E S c ro a False] create_loop_launched)
    with conflict have "t = retries ro [] @ t1" "last_attempt ro t1 r"
      by (auto simp: retries_Nil last_attempt_def)
    then show ?thesis by (metis empty_iff list.set(1) list.size(3) add_0 Suc.prems(2))
  qed
qed


lemma runs_of_retries: "length (filter is_Run (retries ro es)) = length es"
  by (induction es) (simp_all add: retries_Nil retries_Cons)

lemma last_attempt_runs:
  assumes "last_attempt ro final r"
  shows "1 \<le> length (filter is_Run final)" "length (filter is_Run final) \<le> 2"
    "(\<forall>e. Run ro (Inl e) \<in> set final \<longrightarrow> \<not> name_conflict e) \<Longrightarrow> length (filter is_Run final) = 1"
  using assms by (auto simp: last_attempt_def)

lemma locked_twice_loop:
  "create_loop locked_twice (example_settings None) ''oc-sess-s1'' example_run 0 False (0, 0)
     = (Inr (), (3, 0),
        [Run example_run (Inl locked_error), Sleep 5000,
         Run example_run (Inl locked_error), Sleep 5000,
         Run example_run (Inr ())])"
  by (simp add: create_loop.simps run_attempt_def task_simps locked_twice_def scripted_def
      locked_error_facts MAX_LAYER_RETRIES_def)

text \<open>
  C3, as amended. The create loop makes one attempt and at most \<open>MAX_LAYER_RETRIES = 5\<close>
  retries: its events are at most five runs that failed by a layer lock, each followed by
  one sleep of 5000 ms, and then a last attempt, which succeeds, recovers from a name
  conflict, or throws the error of the last call made. So the loop itself calls run at most
  six times (seven calls with the run of a conflict recovery), and it always returns.
\<close>

theorem create_loop_retries:
  assumes "create_loop E S c ro 0 False w = (r, w', t)"
  shows "(\<exists>es final. t = retries ro es @ final \<and> length es \<le> MAX_LAYER_RETRIES
            \<and> (\<forall>e \<in> set es. layer_locked e) \<and> last_attempt ro final r)
       \<and> 1 \<le> length (filter is_Run t)
       \<and> length (filter is_Run t) \<le> MAX_LAYER_RETRIES + 2
       \<and> ((\<forall>e. Run ro (Inl e) \<in> set t \<longrightarrow> \<not> name_conflict e)
            \<longrightarrow> length (filter is_Run t) \<le> MAX_LAYER_RETRIES + 1)
       \<and> (\<forall>ms. Sleep ms \<in> set t \<longrightarrow> ms = 5000)"
proof -
  from create_loop_shape [OF assms] obtain es final where
    sh: "t = retries ro es @ final" "length es \<le> MAX_LAYER_RETRIES"
      "\<forall>e \<in> set es. layer_locked e \<and> \<not> name_conflict e" "last_attempt ro final r"
    by auto
  have sl: "\<forall>ms. Sleep ms \<in> set (retries ro es) \<longrightarrow> ms = 5000"
    by (induction es) (auto simp: retries_Nil retries_Cons)
  have sf: "\<forall>ms. Sleep ms \<notin> set final"
    using sh(4) by (fastforce simp: last_attempt_def list_ex_iff)
  have "(\<forall>e. Run ro (Inl e) \<in> set t \<longrightarrow> \<not> name_conflict e)
            \<longrightarrow> length (filter is_Run t) \<le> MAX_LAYER_RETRIES + 1"
    using sh last_attempt_runs(3) [OF sh(4)] by (auto simp: runs_of_retries)
  moreover have "1 \<le> length (filter is_Run t)" "length (filter is_Run t) \<le> MAX_LAYER_RETRIES + 2"
    using sh last_attempt_runs(1,2) [OF sh(4)] by (auto simp: runs_of_retries)
  moreover have "\<forall>ms. Sleep ms \<in> set t \<longrightarrow> ms = 5000"
    using sl sf sh(1) by auto
  ultimately show ?thesis using sh by blast
qed

theorem create_loop_retries_witness:
  "create_loop locked_twice (example_settings None) ''oc-sess-s1'' example_run 0 False (0, 0)
     = (Inr (), (3, 0),
        [Run example_run (Inl locked_error), Sleep 5000,
         Run example_run (Inl locked_error), Sleep 5000,
         Run example_run (Inr ())])
   \<and> (\<exists>es final.
        [Run example_run (Inl locked_error), Sleep 5000,
         Run example_run (Inl locked_error), Sleep 5000,
         Run example_run (Inr ())] = retries example_run es @ final
        \<and> length es \<le> MAX_LAYER_RETRIES \<and> list_all layer_locked es
        \<and> last_attempt example_run final (Inr ()))"
  using create_loop_retries [OF locked_twice_loop] locked_twice_loop
  by (simp add: list_all_iff)

text \<open>
  C3 as stated fails: when every run fails by a layer lock, run is called six times, not
  five.
\<close>

theorem create_loop_six_runs:
  "length (filter is_Run (snd (snd (create_loop always_locked (example_settings None) ''oc-sess-s1''
       example_run 0 False (0, 0))))) = 6
   \<and> \<not> 6 \<le> MAX_LAYER_RETRIES"
  by (simp add: create_loop.simps run_attempt_def task_simps always_locked_def scripted_def
      locked_error_facts MAX_LAYER_RETRIES_def)

subsection \<open>Start\<close>

lemma resolve_events:
  assumes "resolveWorkspaceMount E S ws w = (r, w', t)"
  shows "list_all is_fs t"
  using assms
  by (auto simp: resolveWorkspaceMount_def raise_apply pure_apply Let_def
      split: if_splits elim!: andThenE try_catchE awaitE)

lemma ensureClaudeState_events:
  assumes "ensureClaudeState E S base u w = (r, w', t)"
  shows "list_all is_fs t"
  using assms
  by (auto simp: ensureClaudeState_def raise_apply pure_apply Let_def
      split: if_splits elim!: andThenE try_catchE awaitE)

lemma buildAgentMounts_events:
  assumes "buildAgentMounts E S u w = (r, w', t)"
  shows "list_all is_fs t"
    "r = Inr am \<Longrightarrow> length am = 6 \<and> Mkdir (COMMANDER_BASE_PATH S @ ''/agents'') (Inr ()) \<in> set t"
  using assms ensureClaudeState_events [of E S "COMMANDER_BASE_PATH S @ ''/.state''" u w]
  by (auto simp: buildAgentMounts_def ensureAgentsConfig_def raise_apply pure_apply Let_def
      split: if_splits prod.splits elim!: andThenE awaitE)

lemma run_attempt_events:
  assumes "run_attempt E S c ro k w = (r, w', t)"
  shows "list_all loop_event t" "length (filter is_EnsureNetwork t) \<le> 1"
  using assms
  by (auto simp: run_attempt_def safeRemove_def ensureInternalNetwork_def raise_apply pure_apply
      sleep_apply split: if_splits elim!: andThenE try_catchE awaitE)

lemma create_loop_events:
  assumes "create_loop E S c ro a l w = (r, w', t)"
  shows "list_all loop_event t"
  using assms
proof (induction E S c ro a l w arbitrary: r w' t rule: create_loop.induct)
  case (1 E S c ro a l w)
  show ?case
  proof (cases "a \<le> MAX_LAYER_RETRIES \<and> \<not> l")
    case False
    with "1.prems" show ?thesis by (auto simp: create_loop.simps [of E S c ro a])
  next
    case True
    obtain r1 w1 t1 where ra: "run_attempt E S c ro a w = (r1, w1, t1)"
      by (cases "run_attempt E S c ro a w") auto
    show ?thesis
    proof (cases r1)
      case (Inl e)
      with True ra "1.prems" run_attempt_events(1) [OF ra] show ?thesis
        by (auto simp: create_loop.simps [of E S c ro a])
    next
      case (Inr l')
      with True ra "1.prems" obtain t2 where
        rec: "create_loop E S c ro (a + 1) l' w1 = (r, w', t2)" and t: "t = t1 @ t2"
        by (auto simp: create_loop.simps [of E S c ro a] split: prod.splits)
      have "(w1, t1) = (w1, t1)" ..
      from "1.IH" [OF True ra [symmetric] Inr this rec] run_attempt_events(1) [OF ra] t
      show ?thesis by simp
    qed
  qed
qed


lemma launch_cases:
  assumes "launch_container E S u c ws w = (r, w', t)"
  obtains (early) e where "r = Inl e"
      "\<forall>ev \<in> set t. is_fs ev \<or> is_EnsureNetwork ev \<or> (\<exists>i e. ev = Pull i (Inl e))"
    | (looped) p l am wm w1 where
      "t = p @ [EnsureNetwork (TTYD_INTERNAL_NETWORK S) True (Inr ()), Pull (IMAGE S) (Inr ())] @ l"
      "list_all is_fs p"
      "Mkdir (COMMANDER_BASE_PATH S @ ''/agents'') (Inr ()) \<in> set p"
      "length am = 6"
      "create_loop E S c (launch_options S c (am @ workspace_mounts wm)) 0 False w1 = (r, w', l)"
  using assms unfolding launch_container_def ensureInternalNetwork_def
proof (elim andThenE awaitE)
  fix e
  assume "resolveWorkspaceMount E S ws w = (Inl e, w', t)" "r = Inl e"
  then show ?thesis using resolve_events by (intro early [of e]) (fastforce simp: list_all_iff)+
next
  fix x w1 t1 t2 e
  assume "resolveWorkspaceMount E S ws w = (Inr x, w1, t1)"
    "buildAgentMounts E S u w1 = (Inl e, w', t2)" "t = t1 @ t2" "r = Inl e"
  then show ?thesis using resolve_events buildAgentMounts_events(1)
    by (intro early [of e]) (fastforce simp: list_all_iff)+
next
  fix x w1 t1 t2 xa w1a t1a t2a e
  assume "resolveWorkspaceMount E S ws w = (Inr x, w1, t1)"
    "buildAgentMounts E S u w1 = (Inr xa, w1a, t1a)" "t = t1 @ t2" "t2 = t1a @ t2a" "r = Inl e"
    "t2a = [EnsureNetwork (TTYD_INTERNAL_NETWORK S) True (Inl e)]"
  then show ?thesis using resolve_events buildAgentMounts_events(1)
    by (intro early [of e]) (fastforce simp: list_all_iff)+
next
  fix x w1 t1 t2 xa w1a t1a t2a xb w1b t1b t2b e
  assume "resolveWorkspaceMount E S ws w = (Inr x, w1, t1)"
    "buildAgentMounts E S u w1 = (Inr xa, w1a, t1a)" "t = t1 @ t2" "t2 = t1a @ t2a" "r = Inl e"
    "t2a = t1b @ t2b" "t1b = [EnsureNetwork (TTYD_INTERNAL_NETWORK S) True (Inr xb)]"
    "t2b = [Pull (IMAGE S) (Inl e)]"
  then show ?thesis using resolve_events buildAgentMounts_events(1)
    by (intro early [of e]) (fastforce simp: list_all_iff)+
next
  fix x w1 t1 t2 xa w1a t1a t2a xb w1b t1b t2b xc w1c t1c t2c
  assume rs: "resolveWorkspaceMount E S ws w = (Inr x, w1, t1)"
    and bm: "buildAgentMounts E S u w1 = (Inr xa, w1a, t1a)"
    and ts: "t = t1 @ t2" "t2 = t1a @ t2a" "t2a = t1b @ t2b" "t2b = t1c @ t2c"
      "t1b = [EnsureNetwork (TTYD_INTERNAL_NETWORK S) True (Inr xb)]"
      "t1c = [Pull (IMAGE S) (Inr xc)]"
    and lp: "create_loop E S c (launch_options S c (xa @ workspace_mounts x)) 0 False w1c
         = (r, w', t2c)"
  have "t = (t1 @ t1a) @ [EnsureNetwork (TTYD_INTERNAL_NETWORK S) True (Inr ()), Pull (IMAGE S) (Inr ())] @ t2c"
    using ts by simp
  moreover have "list_all is_fs (t1 @ t1a)"
    using resolve_events [OF rs] buildAgentMounts_events(1) [OF bm] by simp
  moreover have "Mkdir (COMMANDER_BASE_PATH S @ ''/agents'') (Inr ()) \<in> set (t1 @ t1a)" "length xa = 6"
    using buildAgentMounts_events(2) [OF bm] by auto
  ultimately show ?thesis using lp by (rule looped)
qed

lemma finish_events:
  assumes "finish_start E u sid c opts w = (r, w', t)"
  shows "list_all is_finish t"
  using assms
  by (auto simp: finish_start_def checkout_branch_def raise_apply pure_apply
      split: if_splits option.splits elim!: andThenE try_catchE awaitE)


lemma reconcile_cases:
  assumes "reconcile E S u sid opts w = (r, w', t)"
  obtains (unprobed) res e where
      "t = [FindUnique \<lparr>where_id = sid, where_userId = u, where_status_in = None\<rparr> res]"
      "\<forall>row. res = Inr (Some row) \<longrightarrow> row_status row = stopped" "r = Inl e"
    | (failed) row e where
      "t = [FindUnique \<lparr>where_id = sid, where_userId = u, where_status_in = None\<rparr> (Inr (Some row)),
            IsRunning (fst (sessionContainerNames S sid)) (Inl e)]"
      "row_status row \<noteq> stopped" "r = Inl e"
    | (found) row b mid fin where
      "t = FindUnique \<lparr>where_id = sid, where_userId = u, where_status_in = None\<rparr> (Inr (Some row))
           # IsRunning (fst (sessionContainerNames S sid)) (Inr (Some b)) # mid @ fin"
      "row_status row \<noteq> stopped" "list_all is_finish fin"
      "reset opts \<longrightarrow> (\<exists>x. mid = [Restart (fst (sessionContainerNames S sid)) x])"
      "\<not> reset opts \<longrightarrow> mid = [] \<or> (\<exists>x. mid = [Start (fst (sessionContainerNames S sid)) x])"
    | (missing) row mid fin r1 w1 w2 where
      "t = FindUnique \<lparr>where_id = sid, where_userId = u, where_status_in = None\<rparr> (Inr (Some row))
           # IsRunning (fst (sessionContainerNames S sid)) (Inr None) # mid @ fin"
      "row_status row \<noteq> stopped" "list_all is_finish fin"
      "launch_container E S u (fst (sessionContainerNames S sid)) (workspaceSuffix opts) w1
         = (r1, w2, mid)"
      "(\<exists>e. r1 = Inl e \<and> fin = [] \<and> r = Inl e)
         \<or> (r1 = Inr () \<and> finish_start E u sid (fst (sessionContainerNames S sid)) opts w2
               = (r, w', fin))"
  using assms unfolding reconcile_def
proof (elim andThenE awaitE)
  fix e
  assume "t = [FindUnique \<lparr>where_id = sid, where_userId = u, where_status_in = None\<rparr> (Inl e)]"
    "r = Inl e"
  then show ?thesis by (intro unprobed [of "Inl e" e]) auto
next
  fix x w1 t1 t2
  assume t1: "t1 = [FindUnique \<lparr>where_id = sid, where_userId = u, where_status_in = None\<rparr> (Inr x)]"
    and t: "t = t1 @ t2"
    and k: "(case x of None \<Rightarrow> raise session_not_found
         | Some row \<Rightarrow>
             if row_status row = stopped then raise session_not_found
             else let agentContainer = fst (sessionContainerNames S sid)
                  in andThen (await (docker_isRunning E agentContainer) (IsRunning agentContainer))
                      (\<lambda>probe.
                          andThen
                           (case probe of
                            None \<Rightarrow> launch_container E S u agentContainer (workspaceSuffix opts)
                            | Some is_up \<Rightarrow>
                                if reset opts
                                then await (docker_restart E agentContainer) (Restart agentContainer)
                                else if \<not> is_up
                                     then await (docker_start E agentContainer) (Start agentContainer)
                                     else pure ())
                           (\<lambda>_. finish_start E u sid agentContainer opts)))
         w1 = (r, w', t2)"
  show ?thesis
  proof (cases "\<exists>row. x = Some row \<and> row_status row \<noteq> stopped")
    case False
    with k have "t2 = []" "r = Inl session_not_found"
      by (auto simp: raise_apply split: option.splits if_splits)
    with t t1 False show ?thesis by (intro unprobed [of "Inr x" session_not_found]) auto
  next
    case True
    then obtain row where row: "x = Some row" "row_status row \<noteq> stopped" by auto
    with k have k': "andThen (await (docker_isRunning E (fst (sessionContainerNames S sid)))
                        (IsRunning (fst (sessionContainerNames S sid))))
                      (\<lambda>probe.
                          andThen
                           (case probe of
                            None \<Rightarrow> launch_container E S u (fst (sessionContainerNames S sid)) (workspaceSuffix opts)
                            | Some is_up \<Rightarrow>
                                if reset opts
                                then await (docker_restart E (fst (sessionContainerNames S sid)))
                                       (Restart (fst (sessionContainerNames S sid)))
                                else if \<not> is_up
                                     then await (docker_start E (fst (sessionContainerNames S sid)))
                                            (Start (fst (sessionContainerNames S sid)))
                                     else pure ())
                           (\<lambda>_. finish_start E u sid (fst (sessionContainerNames S sid)) opts))
                      w1 = (r, w', t2)"
      by (simp add: Let_def)
    from k' show ?thesis
    proof (elim andThenE awaitE)
      fix e
      assume "t2 = [IsRunning (fst (sessionContainerNames S sid)) (Inl e)]" "r = Inl e"
      with t t1 row show ?thesis by (intro failed [of row e]) auto
    next
      fix probe w2 t3 t4 e
      assume t2: "t3 = [IsRunning (fst (sessionContainerNames S sid)) (Inr probe)]" "t2 = t3 @ t4"
        and act: "(case probe of
           None \<Rightarrow> launch_container E S u (fst (sessionContainerNames S sid)) (workspaceSuffix opts)
           | Some is_up \<Rightarrow>
               if reset opts
               then await (docker_restart E (fst (sessionContainerNames S sid)))
                      (Restart (fst (sessionContainerNames S sid)))
               else if \<not> is_up
                    then await (docker_start E (fst (sessionContainerNames S sid)))
                           (Start (fst (sessionContainerNames S sid)))
                    else pure ())
           w2 = (Inl e, w', t4)" and r: "r = Inl e"
      have tt: "t = FindUnique \<lparr>where_id = sid, where_userId = u, where_status_in = None\<rparr> (Inr (Some row))
                # IsRunning (fst (sessionContainerNames S sid)) (Inr probe) # t4 @ []"
        using t t1 row t2 by simp
      show ?thesis
      proof (cases probe)
        case None
        with act have "launch_container E S u (fst (sessionContainerNames S sid))
                 (workspaceSuffix opts) w2 = (Inl e, w', t4)" by simp
        with tt None r row(2) show ?thesis by (intro missing [of row t4 "[]" w2 "Inl e" w']) auto
      next
        case (Some b)
        with act have "reset opts \<longrightarrow> (\<exists>x. t4 = [Restart (fst (sessionContainerNames S sid)) x])"
          "\<not> reset opts \<longrightarrow> t4 = [] \<or> (\<exists>x. t4 = [Start (fst (sessionContainerNames S sid)) x])"
          by (auto simp: pure_apply split: if_splits elim!: awaitE)
        with tt Some row(2) show ?thesis by (intro found [of row b t4 "[]"]) auto
      qed
    next
      fix probe w2 t3 t4 x2 w3 t5 t6
      assume t2: "t3 = [IsRunning (fst (sessionContainerNames S sid)) (Inr probe)]" "t2 = t3 @ t4"
        and act: "(case probe of
           None \<Rightarrow> launch_container E S u (fst (sessionContainerNames S sid)) (workspaceSuffix opts)
           | Some is_up \<Rightarrow>
               if reset opts
               then await (docker_restart E (fst (sessionContainerNames S sid)))
                      (Restart (fst (sessionContainerNames S sid)))
               else if \<not> is_up
                    then await (docker_start E (fst (sessionContainerNames S sid)))
                           (Start (fst (sessionContainerNames S sid)))
                    else pure ())
           w2 = (Inr x2, w3, t5)"
        and fin: "finish_start E u sid (fst (sessionContainerNames S sid)) opts w3 = (r, w', t6)"
        and t4: "t4 = t5 @ t6"
      have tt: "t = FindUnique \<lparr>where_id = sid, where_userId = u, where_status_in = None\<rparr> (Inr (Some row))
                # IsRunning (fst (sessionContainerNames S sid)) (Inr probe) # t5 @ t6"
        using t t1 row t2 t4 by simp
      show ?thesis
      proof (cases probe)
        case None
        with act have "launch_container E S u (fst (sessionContainerNames S sid))
                 (workspaceSuffix opts) w2 = (Inr (), w3, t5)" by simp
        with tt None row(2) finish_events [OF fin] fin show ?thesis
          by (intro missing [of row t5 t6 w2 "Inr ()" w3]) auto
      next
        case (Some b)
        with act have "reset opts \<longrightarrow> (\<exists>x. t5 = [Restart (fst (sessionContainerNames S sid)) x])"
          "\<not> reset opts \<longrightarrow> t5 = [] \<or> (\<exists>x. t5 = [Start (fst (sessionContainerNames S sid)) x])"
          by (auto simp: pure_apply split: if_splits elim!: awaitE)
        with tt Some row(2) finish_events [OF fin] show ?thesis by (intro found [of row b t5 t6]) auto
      qed
    qed
  qed
qed

lemma fs_quiet:
  "is_fs ev \<Longrightarrow> \<not> is_Run ev \<and> \<not> is_Restart ev \<and> \<not> is_Pull ev \<and> \<not> is_EnsureNetwork ev"
  by (cases ev) auto

lemma finish_quiet:
  "is_finish ev \<Longrightarrow> \<not> is_Run ev \<and> \<not> is_Restart ev \<and> \<not> is_Pull ev \<and> \<not> is_EnsureNetwork ev"
  by (cases ev) auto

lemma loop_quiet: "loop_event ev \<Longrightarrow> \<not> is_Restart ev \<and> \<not> is_Pull ev"
  by (cases ev) auto

lemma filter_none: "list_all P xs \<Longrightarrow> (\<And>x. P x \<Longrightarrow> \<not> Q x) \<Longrightarrow> filter Q xs = []"
  by (induction xs) auto

lemmas no_runs_fs = filter_none [where P = is_fs and Q = is_Run, OF _ fs_quiet [THEN conjunct1]]
lemmas no_restarts_fs = filter_none [where P = is_fs and Q = is_Restart, OF _ fs_quiet [THEN conjunct2, THEN conjunct1]]
lemmas no_pulls_fs = filter_none [where P = is_fs and Q = is_Pull, OF _ fs_quiet [THEN conjunct2, THEN conjunct2, THEN conjunct1]]
lemmas no_nets_fs = filter_none [where P = is_fs and Q = is_EnsureNetwork, OF _ fs_quiet [THEN conjunct2, THEN conjunct2, THEN conjunct2]]
lemmas no_runs_finish = filter_none [where P = is_finish and Q = is_Run, OF _ finish_quiet [THEN conjunct1]]
lemmas no_restarts_finish = filter_none [where P = is_finish and Q = is_Restart, OF _ finish_quiet [THEN conjunct2, THEN conjunct1]]
lemmas no_restarts_loop = filter_none [where P = loop_event and Q = is_Restart, OF _ loop_quiet [THEN conjunct1]]
lemmas no_pulls_loop = filter_none [where P = loop_event and Q = is_Pull, OF _ loop_quiet [THEN conjunct2]]

lemma filter_empty_set: "filter P xs = [] \<Longrightarrow> x \<in> set xs \<Longrightarrow> \<not> P x"
  by (auto simp: filter_empty_conv)

lemma create_loop_runs:
  assumes "create_loop E S c ro 0 False w = (r, w', l)"
  shows "1 \<le> length (filter is_Run l)" "length (filter is_Run l) \<le> MAX_LAYER_RETRIES + 2"
    "\<forall>ro' res. Run ro' res \<in> set l \<longrightarrow> ro' = ro"
    "(\<forall>ro' e. Run ro' (Inl e) \<notin> set l) \<longrightarrow> l = [Run ro (Inr ())] \<and> r = Inr ()"
proof -
  from create_loop_shape [OF assms] obtain es final where
    sh: "l = retries ro es @ final" "length es \<le> MAX_LAYER_RETRIES" "last_attempt ro final r"
    by auto
  show "1 \<le> length (filter is_Run l)" "length (filter is_Run l) \<le> MAX_LAYER_RETRIES + 2"
    using sh last_attempt_runs(1,2) [OF sh(3)] by (auto simp: runs_of_retries)
  have "\<forall>ro' res. Run ro' res \<in> set (retries ro es) \<longrightarrow> ro' = ro"
    by (induction es) (auto simp: retries_Nil retries_Cons)
  moreover have "\<forall>ro' res. Run ro' res \<in> set final \<longrightarrow> ro' = ro"
    using sh(3) unfolding last_attempt_def by fastforce
  ultimately show "\<forall>ro' res. Run ro' res \<in> set l \<longrightarrow> ro' = ro"
    using sh(1) by auto
  show "(\<forall>ro' e. Run ro' (Inl e) \<notin> set l) \<longrightarrow> l = [Run ro (Inr ())] \<and> r = Inr ()"
  proof
    assume clean: "\<forall>ro' e. Run ro' (Inl e) \<notin> set l"
    have "es = []"
    proof (cases es)
      case (Cons e es')
      with sh(1) have "Run ro (Inl e) \<in> set l" by (simp add: retries_Cons)
      with clean show ?thesis by blast
    qed simp
    then have l: "l = final" using sh(1) by (simp add: retries_Nil)
    from sh(3) consider (single) res where "final = [Run ro res]"
        "res = Inr () \<and> r = Inr () \<or> (\<exists>e. res = Inl e \<and> r = Inl e \<and> \<not> name_conflict e)"
      | (conflict) e rest where "final = Run ro (Inl e) # rest"
      unfolding last_attempt_def by blast
    then show "l = [Run ro (Inr ())] \<and> r = Inr ()"
    proof cases
      case single
      then show ?thesis
      proof (cases res)
        case (Inl e)
        with single l have "Run ro (Inl e) \<in> set l" by simp
        with clean show ?thesis by blast
      next
        case (Inr x)
        with single l show ?thesis by auto
      qed
    next
      case conflict
      with l have "Run ro (Inl e) \<in> set l" by simp
      with clean show ?thesis by blast
    qed
  qed
qed

lemma start_reset:
  assumes "start E S u sid opts w = (r, w', t)" "reset opts"
  shows "reconcile E S u sid opts w = (r, w', t)"
  using assms unfolding start_def
  by (elim andThenE) (auto simp: pure_apply)


lemma early_quiet:
  "is_fs ev \<or> is_EnsureNetwork ev \<or> (\<exists>i e. ev = Pull i (Inl e))
     \<Longrightarrow> \<not> is_Restart ev \<and> \<not> is_Run ev \<and> ev \<noteq> Pull img (Inr ())"
  by (cases ev) auto

lemma launch_counts:
  assumes "launch_container E S u c ws w = (r, w', mid)"
  shows "filter is_Restart mid = []
       \<and> length (filter is_Run mid) \<le> MAX_LAYER_RETRIES + 2
       \<and> (Pull (IMAGE S) (Inr ()) \<in> set mid \<longrightarrow> 1 \<le> length (filter is_Run mid))"
  using assms
proof (cases rule: launch_cases)
  case (early e)
  then have "\<forall>ev \<in> set mid. \<not> is_Restart ev \<and> \<not> is_Run ev \<and> ev \<noteq> Pull (IMAGE S) (Inr ())"
    using early_quiet by blast
  then show ?thesis
    by (auto simp: filter_empty_conv)
next
  case (looped p l am wm w1)
  from create_loop_runs(1,2) [OF looped(5)] create_loop_events [OF looped(5)] looped(1,2)
  show ?thesis
    by (simp add: no_runs_fs no_restarts_fs no_restarts_loop)
qed










lemma error_facts: "\<not> no_such_container daemon_error" "no_such_container gone_error"
  by (simp_all add: no_such_container_def daemon_error_def gone_error_def)

lemma conflict_error_facts: "name_conflict conflict_error"
  by (simp add: name_conflict_def conflict_error_def)

lemmas start_simps = start_def reconcile_def launch_container_def resolveWorkspaceMount_def
  buildAgentMounts_def ensureClaudeState_def ensureAgentsConfig_def ensureInternalNetwork_def
  create_loop.simps run_attempt_def safeRemove_def finish_start_def checkout_branch_def
  example_settings_def scripted_def task_simps Let_def conflict_error_facts error_facts
  MAX_LAYER_RETRIES_def

lemma restarted_start:
  "start restarted (example_settings None) ''u1'' ''s1''
       \<lparr>reset = True, workspaceSuffix = None, gitBranch = None\<rparr> (0, 0)
     = (Inr \<lparr>started_containerName = Some ''oc-sess-s1''\<rparr>, (0, 2),
        [FindUnique \<lparr>where_id = ''s1'', where_userId = ''u1'', where_status_in = None\<rparr>
           (Inr (Some \<lparr>row_id = ''s1'', row_userId = ''u1'', row_status = pending,
                        row_containerName = None, row_projectId = Some ''p1''\<rparr>)),
         IsRunning ''oc-sess-s1'' (Inr (Some True)),
         Restart ''oc-sess-s1'' (Inr ()),
         IsRunning ''oc-sess-s1'' (Inr (Some True)),
         Update \<lparr>where_id = ''s1'', where_userId = ''u1'', where_status_in = None\<rparr>
           (Some ''oc-sess-s1'') running
           (Inr \<lparr>row_id = ''s1'', row_userId = ''u1'', row_status = running,
                  row_containerName = Some ''oc-sess-s1'', row_projectId = Some ''p1''\<rparr>),
         NotifySessionChange ''p1'' (Inr ())])"
  by (simp add: start_simps restarted_def)

lemma triple_eq: "x = (fst x, fst (snd x), snd (snd x))"
  by simp

text \<open>
  C1, as amended. In a \<open>start\<close> with \<open>reset\<close> set: when the first probe finds the
  container, running or not, \<open>restart\<close> is called exactly once and \<open>run\<close> is not called;
  when the first probe finds no container, \<open>restart\<close> is not called and \<open>run\<close> is called
  at most \<open>MAX_LAYER_RETRIES + 2 = 7\<close> times, and at least once if the pull succeeded. The
  probe is made whenever the session is found and is not stopped.
\<close>

theorem start_reset_calls:
  assumes "start E S u sid opts w = (r, w', t)" "reset opts"
  shows "(\<forall>b. first_probe t = Some (Inr (Some b))
            \<longrightarrow> length (filter is_Restart t) = 1 \<and> filter is_Run t = [])
       \<and> (first_probe t = Some (Inr None)
            \<longrightarrow> filter is_Restart t = [] \<and> length (filter is_Run t) \<le> MAX_LAYER_RETRIES + 2
                \<and> (Pull (IMAGE S) (Inr ()) \<in> set t \<longrightarrow> 1 \<le> length (filter is_Run t)))
       \<and> (\<forall>row rest.
            t = FindUnique \<lparr>where_id = sid, where_userId = u, where_status_in = None\<rparr> (Inr (Some row)) # rest
            \<and> row_status row \<noteq> stopped
            \<longrightarrow> first_probe t \<noteq> None)"
  using start_reset [OF assms]
proof (cases rule: reconcile_cases)
  case (unprobed res e)
  then show ?thesis by auto
next
  case (failed row e)
  then show ?thesis by simp
next
  case (found row b mid fin)
  with assms(2) show ?thesis by (auto simp: no_runs_finish no_restarts_finish)
next
  case (missing row mid fin r1 w1 w2)
  have "Pull (IMAGE S) (Inr ()) \<notin> set fin"
    using missing(3) by (auto simp: list_all_iff)
  with launch_counts [OF missing(4)] missing(1,3) show ?thesis
    by (auto simp: no_runs_finish no_restarts_finish)
qed

theorem start_reset_calls_witness:
  "reset \<lparr>reset = True, workspaceSuffix = None, gitBranch = None\<rparr>
   \<and> first_probe (snd (snd (start restarted (example_settings None) ''u1'' ''s1''
         \<lparr>reset = True, workspaceSuffix = None, gitBranch = None\<rparr> (0, 0))))
       = Some (Inr (Some True))
   \<and> map call_name (filter is_Restart (snd (snd (start restarted (example_settings None) ''u1'' ''s1''
         \<lparr>reset = True, workspaceSuffix = None, gitBranch = None\<rparr> (0, 0))))) = [''restart'']
   \<and> filter is_Run (snd (snd (start restarted (example_settings None) ''u1'' ''s1''
         \<lparr>reset = True, workspaceSuffix = None, gitBranch = None\<rparr> (0, 0)))) = []
   \<and> first_probe (snd (snd (start conflict_then_ok (example_settings None) ''u1'' ''s1''
         \<lparr>reset = True, workspaceSuffix = None, gitBranch = None\<rparr> (0, 0))))
       = Some (Inr None)
   \<and> filter is_Restart (snd (snd (start conflict_then_ok (example_settings None) ''u1'' ''s1''
         \<lparr>reset = True, workspaceSuffix = None, gitBranch = None\<rparr> (0, 0)))) = []
   \<and> length (filter is_Run (snd (snd (start conflict_then_ok (example_settings None) ''u1'' ''s1''
         \<lparr>reset = True, workspaceSuffix = None, gitBranch = None\<rparr> (0, 0))))) \<le> MAX_LAYER_RETRIES + 2"
  using start_reset_calls [OF restarted_start]
    start_reset_calls [OF triple_eq [of "start conflict_then_ok (example_settings None) ''u1'' ''s1''
         \<lparr>reset = True, workspaceSuffix = None, gitBranch = None\<rparr> (0, 0)"]]
    restarted_start
  by (simp add: start_simps conflict_then_ok_def)

text \<open>
  C1 as stated fails: with the container missing, the first run failing by a name conflict
  and the start of the container failing too, a reset start calls run twice.
\<close>

theorem start_reset_runs_twice:
  "map call_name (snd (snd (start conflict_then_ok (example_settings None) ''u1'' ''s1''
       \<lparr>reset = True, workspaceSuffix = None, gitBranch = None\<rparr> (0, 0))))
     = [''findUnique'', ''isRunning'', ''mkdir'', ''access'', ''writeFile'', ''mkdir'',
        ''ensureNetwork'', ''pull'', ''run'', ''start'', ''remove'', ''ensureNetwork'', ''run'',
        ''isRunning'', ''update'', ''notifySessionChange'']
   \<and> fst (start conflict_then_ok (example_settings None) ''u1'' ''s1''
       \<lparr>reset = True, workspaceSuffix = None, gitBranch = None\<rparr> (0, 0))
     = Inr \<lparr>started_containerName = Some ''oc-sess-s1''\<rparr>"
  by (simp add: start_simps conflict_then_ok_def)




subsection \<open>Stop\<close>












subsection \<open>Workspace resolution\<close>












subsection \<open>Git workspace service\<close>



























subsection \<open>Terminal proxy\<close>

lemma send_if_open_traffic: "send_if_open E up f c = (c', t) \<Longrightarrow> list_all is_traffic t"
  by (auto simp: send_if_open_def split: if_splits)

lemma call_each_traffic: "call_each E f ls c = (c', t) \<Longrightarrow> list_all is_traffic t"
proof (induction ls arbitrary: c c' t)
  case Nil
  then show ?case by simp
next
  case (Cons l ls)
  then show ?case
    by (cases l) (auto split: prod.splits dest: send_if_open_traffic)
qed

lemma emit_message_traffic: "emit_message E f c = (c', t) \<Longrightarrow> list_all is_traffic t"
  by (auto simp: emit_message_def split: prod.splits dest: call_each_traffic)

lemma deliver_traffic: "deliver E fs c = (c', t) \<Longrightarrow> list_all is_traffic t"
proof (induction fs arbitrary: c c' t)
  case Nil
  then show ?case by simp
next
  case (Cons f fs)
  then show ?case by (auto split: prod.splits dest: emit_message_traffic)
qed

lemma steps_append: "steps (a @ b) = steps a @ steps b"
  by (simp add: steps_def)

lemma steps_traffic: "list_all is_traffic t \<Longrightarrow> steps t = []"
  by (induction t) (auto simp: steps_def)

lemma suspendE:
  assumes "suspend E f ev c = (r, c', t)"
  obtains x t0 where "f (world c) = (r, x)" "t = t0 @ [ev r]" "steps t0 = []"
  using assms
  by (auto simp: suspend_def split: prod.splits dest!: deliver_traffic steps_traffic)

lemma tryOnce_cases:
  assumes "tryOnce E S n p ps c = (r, c', t)"
  obtains (settled) r' where "final_attempt S n p ps (steps t) r'"
      "r = (case r' of Inl e \<Rightarrow> Inl e | Inr u \<Rightarrow> Inr (Some u))"
    | (failed) q where "r = Inr None" "steps t = failed_attempt S n p ps q"
  using assms unfolding tryOnce_def
proof (elim andThenE suspendE)
  fix e x t0
  assume "r = Inl e" "t = t0 @ [Connect (direct_url n p) ps (Some 1500) (Inl e)]" "steps t0 = []"
  then have "final_attempt S n p ps (steps t) (Inl e)"
    by (auto simp: final_attempt_def steps_append steps_def intro!: exI[of _ "Inl e"])
  with \<open>r = Inl e\<close> show ?thesis by (intro settled [of "Inl e"]) auto
next
  fix direct c1 t1 t2 x t0
  assume k: "(case direct of
          None \<Rightarrow>
            andThen (createDockerExecBridge E S n p) (\<lambda>port.
            andThen (suspend E (ws_connect E (bridge_url port) ps None)
                       (Connect (bridge_url port) ps None))
              (\<lambda>ws. case ws of
                       None \<Rightarrow> andThen (bridge_cleanup E port) (\<lambda>_. pure None)
                     | Some u \<Rightarrow> pure (Some u)))
        | Some ws \<Rightarrow> pure (Some ws)) c1 = (r, c', t2)"
    and t: "t = t1 @ t2" "t1 = t0 @ [Connect (direct_url n p) ps (Some 1500) (Inr direct)]"
      "steps t0 = []"
  show ?thesis
  proof (cases direct)
    case (Some u)
    with k t have "r = Inr (Some u)"
      "steps t = [Connect (direct_url n p) ps (Some 1500) (Inr (Some u))]"
      by (auto simp: pure_apply steps_append steps_def)
    then show ?thesis
      by (intro settled [of "Inr u"]) (auto simp: final_attempt_def intro!: exI[of _ "Inr (Some u)"])
  next
    case None
    with t have t1: "steps t1 = [Connect (direct_url n p) ps (Some 1500) (Inr None)]"
      by (simp add: steps_append steps_def)
    from k None
    have "andThen (createDockerExecBridge E S n p) (\<lambda>port.
            andThen (suspend E (ws_connect E (bridge_url port) ps None)
                       (Connect (bridge_url port) ps None))
              (\<lambda>ws. case ws of
                       None \<Rightarrow> andThen (bridge_cleanup E port) (\<lambda>_. pure None)
                     | Some u \<Rightarrow> pure (Some u))) c1 = (r, c', t2)"
      by simp
    then show ?thesis
      unfolding createDockerExecBridge_def
    proof (elim andThenE suspendE)
      fix e y s0
      assume "r = Inl e" "t2 = s0 @ [CreateBridge (docker_exec_argv S n p) (Inl e)]" "steps s0 = []"
      with t t1 have "steps t = [Connect (direct_url n p) ps (Some 1500) (Inr None),
          CreateBridge (docker_exec_argv S n p) (Inl e)]"
        by (simp add: steps_append) (simp add: steps_def)
      with \<open>r = Inl e\<close> show ?thesis
        by (intro settled [of "Inl e"]) (auto simp: final_attempt_def)
    next
      fix q c2 s1 s2 e y s0 z u0
      assume "r = Inl e" "t2 = s1 @ s2" "s1 = s0 @ [CreateBridge (docker_exec_argv S n p) (Inr q)]"
        "steps s0 = []" "s2 = u0 @ [Connect (bridge_url q) ps None (Inl e)]" "steps u0 = []"
      with t t1 have "steps t = [Connect (direct_url n p) ps (Some 1500) (Inr None),
          CreateBridge (docker_exec_argv S n p) (Inr q), Connect (bridge_url q) ps None (Inl e)]"
        by (simp add: steps_append) (simp add: steps_def)
      with \<open>r = Inl e\<close> show ?thesis
        by (intro settled [of "Inl e"])
          (auto simp: final_attempt_def intro!: exI[of _ q] exI[of _ "Inl e"])
    next
      fix q c2 s1 s2 y s0 ws c3 s3 s4 z u0
      assume a: "t2 = s1 @ s2" "s1 = s0 @ [CreateBridge (docker_exec_argv S n p) (Inr q)]"
        "steps s0 = []" "s2 = s3 @ s4" "s3 = u0 @ [Connect (bridge_url q) ps None (Inr ws)]"
        "steps u0 = []"
        and k2: "(case ws of None \<Rightarrow> andThen (bridge_cleanup E q) (\<lambda>_. pure None)
                  | Some u \<Rightarrow> pure (Some u)) c3 = (r, c', s4)"
      show ?thesis
      proof (cases ws)
        case (Some u)
        with k2 have "r = Inr (Some u)" "s4 = []" by (auto simp: pure_apply)
        moreover from this a t t1 Some
        have "steps t = [Connect (direct_url n p) ps (Some 1500) (Inr None),
          CreateBridge (docker_exec_argv S n p) (Inr q),
          Connect (bridge_url q) ps None (Inr (Some u))]"
          by (simp add: steps_append) (simp add: steps_def)
        ultimately show ?thesis
          by (intro settled [of "Inr u"])
            (auto simp: final_attempt_def intro!: exI[of _ q] exI[of _ "Inr (Some u)"])
      next
        case None
        with k2 have r: "r = Inr None" and s4: "s4 = [ServerClose q]"
          by (auto simp: pure_apply bridge_cleanup_def elim!: andThenE)
        from s4 a t t1 None
        have "steps t = failed_attempt S n p ps q"
          by (simp add: steps_append failed_attempt_def) (simp add: steps_def)
        with r show ?thesis by (rule failed)
      qed
    qed
  qed
qed

lemma attempts_Nil: "concat (map (\<lambda>q. failed_attempt S n p ps q @ [Delay d]) []) = []"
  by simp

lemma connect_loop_past: "m < k \<Longrightarrow> connect_loop E S n p ps m d k c = (Inl (exhausted n p m), c, [])"
  by (simp add: connect_loop.simps)

lemma delay_steps:
  assumes "delay E d c = (r, c', t)"
  shows "r = Inr () \<and> steps t = [Delay d]"
  using assms unfolding delay_def
  by (elim suspendE) (auto simp: steps_append steps_def)

lemma connect_loop_shape:
  assumes "connect_loop E S n p ps m d k c = (r, c', t)" "k \<le> m"
  shows "\<exists>qs final. steps t = concat (map (\<lambda>q. failed_attempt S n p ps q @ [Delay d]) qs) @ final
           \<and> length qs \<le> m - k
           \<and> (final_attempt S n p ps final r
              \<or> (\<exists>q. final = failed_attempt S n p ps q \<and> length qs = m - k
                      \<and> r = Inl (exhausted n p m)))"
  using assms
proof (induction "m - k" arbitrary: k c r c' t)
  case 0
  then have k: "k = m" by simp
  obtain r1 c1 t1 where once: "tryOnce E S n p ps c = (r1, c1, t1)"
    by (cases "tryOnce E S n p ps c") auto
  from once show ?case
  proof (cases rule: tryOnce_cases)
    case (settled r')
    with once "0.prems"(1) k have "r = r'" "t = t1"
      by (auto simp: connect_loop.simps [of E S n p ps m d m c] split: sum.splits)
    with settled(1) show ?thesis
      by (intro exI[of _ "[]::nat list"] exI[of _ "steps t1"]) simp
  next
    case (failed q)
    with once "0.prems"(1) k have "r = Inl (exhausted n p m)" "t = t1"
      by (auto simp: connect_loop.simps [of E S n p ps m d m c] pure_apply connect_loop_past)
    with failed show ?thesis
      by (intro exI[of _ "[]::nat list"] exI[of _ "failed_attempt S n p ps q"]) (auto simp: k)
  qed
next
  case (Suc j)
  then have k: "k < m" by simp
  obtain r1 c1 t1 where once: "tryOnce E S n p ps c = (r1, c1, t1)"
    by (cases "tryOnce E S n p ps c") auto
  from once show ?case
  proof (cases rule: tryOnce_cases)
    case (settled r')
    with once Suc.prems(1) k have "r = r'" "t = t1"
      by (auto simp: connect_loop.simps [of E S n p ps m d k c] split: sum.splits)
    with settled(1) show ?thesis
      by (intro exI[of _ "[]::nat list"] exI[of _ "steps t1"]) simp
  next
    case (failed q)
    obtain r2 c2 t2 where pause: "delay E d c1 = (r2, c2, t2)"
      by (cases "delay E d c1") auto
    from delay_steps [OF pause] have r2: "r2 = Inr ()" and t2: "steps t2 = [Delay d]"
      by simp_all
    from once failed pause r2 Suc.prems(1) k obtain t3 where
      rec: "connect_loop E S n p ps m d (k + 1) c2 = (r, c', t3)" and t: "t = t1 @ t2 @ t3"
      by (auto simp: connect_loop.simps [of E S n p ps m d k c] split: prod.splits)
    have "j = m - (k + 1)" using Suc.hyps(2) by simp
    from Suc.hyps(1) [OF this rec] k obtain qs final where
      IH: "steps t3 = concat (map (\<lambda>q. failed_attempt S n p ps q @ [Delay d]) qs) @ final"
        "length qs \<le> m - (k + 1)"
        "final_attempt S n p ps final r
          \<or> (\<exists>q. final = failed_attempt S n p ps q \<and> length qs = m - (k + 1)
                 \<and> r = Inl (exhausted n p m))"
      by auto
    from t failed t2 IH(1)
    have "steps t = concat (map (\<lambda>q. failed_attempt S n p ps q @ [Delay d]) (q # qs)) @ final"
      by (simp add: steps_append)
    moreover from IH(2) k have "length (q # qs) \<le> m - k" by simp
    moreover from IH(3) k
    have "final_attempt S n p ps final r
          \<or> (\<exists>q'. final = failed_attempt S n p ps q' \<and> length (q # qs) = m - k
                 \<and> r = Inl (exhausted n p m))"
      by auto
    ultimately show ?thesis by blast
  qed
qed

lemma filter_steps: "(\<And>ev. P ev \<Longrightarrow> \<not> is_traffic ev) \<Longrightarrow> filter P (steps t) = filter P t"
  unfolding steps_def by (induction t) auto

lemma timed_attempts:
  "length (filter timed_connect (concat (map (\<lambda>q. failed_attempt S n p ps q @ [Delay d]) qs)))
     = length qs"
  by (induction qs) (simp_all add: failed_attempt_def)

lemma timed_final:
  "final_attempt S n p ps final r \<Longrightarrow> length (filter timed_connect final) = 1"
  by (auto simp: final_attempt_def)

lemma timed_failed: "length (filter timed_connect (failed_attempt S n p ps q)) = 1"
  by (simp add: failed_attempt_def)

lemma settles_Inr: "settles res (Inr u) \<longleftrightarrow> res = Inr (Some u)"
  by (induction res "Inr u :: thrown + nat" rule: settles.induct) auto

lemma opened_final:
  "final_attempt S n p ps final (Inr u) \<Longrightarrow> list_ex opened final"
  by (auto simp: final_attempt_def settles_Inr)

lemma connected_opened:
  assumes "connectToContainerWs E S n p ps 10 500 c = (Inr u, c', t)"
  shows "list_ex opened t"
proof -
  from assms have "connect_loop E S n p ps 10 500 1 c = (Inr u, c', t)"
    by (simp add: connectToContainerWs_def)
  from connect_loop_shape [OF this] obtain qs final where
    "steps t = concat (map (\<lambda>q. failed_attempt S n p ps q @ [Delay 500]) qs) @ final"
    "final_attempt S n p ps final (Inr u)"
    by auto
  with opened_final [of S n p ps final u] have "list_ex opened (steps t)"
    by simp
  then show ?thesis by (auto simp: steps_def list_ex_iff)
qed

lemma flush_traffic: "flush E up fs c = (c', t) \<Longrightarrow> list_all is_traffic t"
proof (induction fs arbitrary: c c' t)
  case Nil
  then show ?case by simp
next
  case (Cons f fs)
  then show ?case by (auto split: prod.splits dest: send_if_open_traffic)
qed

lemma socket_on_apply:
  "socket_on l c = (Inr (), c\<lparr>message_listeners := message_listeners c @ [l]\<rparr>, [])"
  by (simp add: socket_on_def)

lemma socket_close_apply:
  "socket_close E code reason c
     = (Inr (), c\<lparr>world := ws_close E code reason (world c)\<rparr>, [SocketClose code reason])"
  by (simp add: socket_close_def)

lemma swap_listeners:
  assumes "andThen (socket_off bufferClientMessage) (\<lambda>_.
             andThen (flush_buffer E up) (\<lambda>_. socket_on (forwardUpstream up))) c = (r, c', t)"
  shows "r = Inr ()" "list_all is_traffic t"
  using assms
  by (auto simp: andThen_def socket_off_def flush_buffer_def socket_on_def
      split: prod.splits dest: flush_traffic)

lemma bridge_upstream_cases:
  assumes "bridge_upstream E S n ps c = (r, c', t)"
  obtains (failed) e c2 t1 where
      "connectToContainerWs E S n (TTYD_PORT S) ps 10 500
         (c\<lparr>message_listeners := message_listeners c @ [bufferClientMessage]\<rparr>) = (Inl e, c2, t1)"
      "t = t1 @ [SocketClose 1011 ''Could not connect to terminal'']" "r = Inr ()"
    | (connected) up c2 t1 t2 where
      "connectToContainerWs E S n (TTYD_PORT S) ps 10 500
         (c\<lparr>message_listeners := message_listeners c @ [bufferClientMessage]\<rparr>) = (Inr up, c2, t1)"
      "andThen (socket_off bufferClientMessage) (\<lambda>_.
         andThen (flush_buffer E up) (\<lambda>_. socket_on (forwardUpstream up))) c2 = (r, c', t2)"
      "t = t1 @ t2"
  using assms unfolding bridge_upstream_def
  apply (elim andThenE try_catchE)
  apply (auto simp: pure_apply socket_on_apply socket_close_apply split: option.splits)
  done

lemma traffic_not_Connect: "is_traffic ev \<Longrightarrow> \<not> is_Connect ev"
  by (cases ev) auto

lemma no_Connect_suspend:
  assumes "suspend E f ev c = (r, c', t)" "\<And>x. \<not> is_Connect (ev x)"
  shows "\<not> list_ex is_Connect t"
proof -
  from assms(1) obtain fs c1 t0 where "deliver E fs c1 = (c', t0)" "t = t0 @ [ev r]"
    by (auto simp: suspend_def split: prod.splits)
  with deliver_traffic [of E fs c1 c' t0] assms(2) show ?thesis
    by (auto simp: list_ex_iff list_all_iff dest: traffic_not_Connect)
qed

lemma auth_trace:
  assumes "(if DISABLE_AUTH S then getAdminUserId E else getUserIdFromCookies E cookie) c
             = (r, c', t)"
  shows "\<not> list_ex is_Connect t"
  using assms
  by (auto simp: getAdminUserId_def getUserIdFromCookies_def pure_apply
      split: if_splits option.splits dest!: no_Connect_suspend)

lemma access_trace:
  assumes "resolveTerminalAccess E sid u c = (r, c', t)"
  shows "\<not> list_ex is_Connect t"
  using assms unfolding resolveTerminalAccess_def
  by (elim andThenE) (auto simp: pure_apply dest!: no_Connect_suspend)

lemma terminal_handler_cases:
  assumes "terminal_handler E S sid cookie hdr c = (r, c', t)"
  obtains (rejected) "\<not> list_ex is_Connect t"
    | (bridged) n c1 t1 t2 where
      "bridge_upstream E S n (requested_protocols hdr) c1 = (r, c', t2)" "t = t1 @ t2"
      "\<not> list_ex is_Connect t1"
  using assms unfolding terminal_handler_def
proof (elim andThenE)
  fix e
  assume "(if DISABLE_AUTH S then getAdminUserId E else getUserIdFromCookies E cookie) c
            = (Inl e, c', t)"
  from auth_trace [OF this] show ?thesis by (rule rejected)
next
  fix uid c1 t1 t2
  assume auth: "(if DISABLE_AUTH S then getAdminUserId E else getUserIdFromCookies E cookie) c
            = (Inr uid, c1, t1)"
    and k: "(case uid of
          None \<Rightarrow> socket_close E 1008 ''Unauthorized''
        | Some u \<Rightarrow>
            if u = [] then socket_close E 1008 ''Unauthorized''
            else andThen (resolveTerminalAccess E sid u)
                  (\<lambda>container.
                      case container of
                        None \<Rightarrow>
                          socket_close E 1008 ''Session not found, not running, or access denied''
                      | Some n \<Rightarrow>
                          if n = []
                          then socket_close E 1008
                                ''Session not found, not running, or access denied''
                          else bridge_upstream E S n (requested_protocols hdr))) c1
          = (r, c', t2)"
    and t: "t = t1 @ t2"
  from auth_trace [OF auth] have t1: "\<not> list_ex is_Connect t1" .
  show ?thesis
  proof (cases "truthy uid")
    case False
    with k have "t2 = [SocketClose 1008 ''Unauthorized'']"
      by (cases uid) (auto simp: socket_close_apply)
    with t t1 show ?thesis by (intro rejected) simp
  next
    case True
    then obtain u where u: "uid = Some u" "u \<noteq> []" by (cases uid) auto
    with k have "andThen (resolveTerminalAccess E sid u)
                  (\<lambda>container.
                      case container of
                        None \<Rightarrow>
                          socket_close E 1008 ''Session not found, not running, or access denied''
                      | Some n \<Rightarrow>
                          if n = []
                          then socket_close E 1008
                                ''Session not found, not running, or access denied''
                          else bridge_upstream E S n (requested_protocols hdr)) c1
          = (r, c', t2)"
      by simp
    then show ?thesis
    proof (elim andThenE)
      fix e
      assume "resolveTerminalAccess E sid u c1 = (Inl e, c', t2)"
      from access_trace [OF this] t t1 show ?thesis by (intro rejected) simp
    next
      fix container c2 t3 t4
      assume access: "resolveTerminalAccess E sid u c1 = (Inr container, c2, t3)"
        and k2: "(case container of
            None \<Rightarrow> socket_close E 1008 ''Session not found, not running, or access denied''
          | Some n \<Rightarrow>
              if n = []
              then socket_close E 1008 ''Session not found, not running, or access denied''
              else bridge_upstream E S n (requested_protocols hdr)) c2 = (r, c', t4)"
        and t2: "t2 = t3 @ t4"
      from access_trace [OF access] t1 have t13: "\<not> list_ex is_Connect (t1 @ t3)" by simp
      show ?thesis
      proof (cases "truthy container")
        case False
        with k2 have "t4 = [SocketClose 1008 ''Session not found, not running, or access denied'']"
          by (cases container) (auto simp: socket_close_apply)
        with t t2 t13 show ?thesis by (intro rejected) simp
      next
        case True
        then obtain n where "container = Some n" "n \<noteq> []" by (cases container) auto
        with k2 have "bridge_upstream E S n (requested_protocols hdr) c2 = (r, c', t4)"
          by simp
        moreover from t t2 have "t = (t1 @ t3) @ t4" by simp
        ultimately show ?thesis using t13 by (rule bridged)
      qed
    qed
  qed
qed

lemma handler_closes:
  assumes "terminal_handler E S sid cookie hdr c = (r, c', t)" "list_ex is_Connect t"
    "\<not> list_ex opened t"
  shows "r = Inr () \<and> last t = SocketClose 1011 ''Could not connect to terminal''"
  using assms(1)
proof (cases rule: terminal_handler_cases)
  case rejected
  with assms(2) show ?thesis by simp
next
  case (bridged n c1 t1 t2)
  from bridged(1) show ?thesis
  proof (cases rule: bridge_upstream_cases)
    case (failed e c2 t3)
    with bridged(2) show ?thesis by simp
  next
    case (connected up c2 t3 t4)
    from connected_opened [OF connected(1)] connected(3) bridged(2) assms(3)
    show ?thesis by simp
  qed
qed

text \<open>
  C6. \<^verbatim>\<open>connectToContainerWs\<close> with its defaults makes at most 10 attempts: its steps are at
  most 9 attempts that yield no socket, each followed by one delay of 500 ms, and a last
  attempt. An attempt connects to \<^verbatim>\<open>ws://<containerName>:<port>/ws\<close> with the open timeout
  of 1500 ms and, when that yields no socket, creates the \<^verbatim>\<open>docker exec\<close> bridge and
  connects through its loopback port. The last attempt opens a socket, throws, or is the
  tenth without a socket, and then the error is \<^verbatim>\<open>Could not connect to ... after 10 attempts\<close>.
  When the handler tried to connect and no connection opened, it returns after closing the
  client socket with 1011 and \<^verbatim>\<open>Could not connect to terminal\<close>.
\<close>

theorem connect_attempts:
  "(\<forall>r c' t. connectToContainerWs E S n p ps 10 500 c = (r, c', t) \<longrightarrow>
       length (filter timed_connect t) \<le> 10
       \<and> (\<exists>qs final.
             steps t = concat (map (\<lambda>q. failed_attempt S n p ps q @ [Delay 500]) qs) @ final
             \<and> length qs \<le> 9
             \<and> (final_attempt S n p ps final r
                \<or> (\<exists>q. final = failed_attempt S n p ps q \<and> length qs = 9
                        \<and> r = Inl (exhausted n p 10)))))
   \<and> (\<forall>r c' t. terminal_handler E S sid cookie hdr c = (r, c', t)
                 \<and> list_ex is_Connect t \<and> \<not> list_ex opened t
         \<longrightarrow> r = Inr () \<and> last t = SocketClose 1011 ''Could not connect to terminal'')"
proof (intro conjI allI impI)
  fix r c' t
  assume "connectToContainerWs E S n p ps 10 500 c = (r, c', t)"
  then have "connect_loop E S n p ps 10 500 1 c = (r, c', t)"
    by (simp add: connectToContainerWs_def)
  from connect_loop_shape [OF this] obtain qs final where
    shape: "steps t = concat (map (\<lambda>q. failed_attempt S n p ps q @ [Delay 500]) qs) @ final"
      "length qs \<le> 9"
      "final_attempt S n p ps final r
       \<or> (\<exists>q. final = failed_attempt S n p ps q \<and> length qs = 9 \<and> r = Inl (exhausted n p 10))"
    by auto
  then show "\<exists>qs final.
             steps t = concat (map (\<lambda>q. failed_attempt S n p ps q @ [Delay 500]) qs) @ final
             \<and> length qs \<le> 9
             \<and> (final_attempt S n p ps final r
                \<or> (\<exists>q. final = failed_attempt S n p ps q \<and> length qs = 9
                        \<and> r = Inl (exhausted n p 10)))"
    by blast
  from shape(3) have "length (filter timed_connect final) = 1"
    by (auto simp: timed_final timed_failed)
  with shape(1,2) have "length (filter timed_connect (steps t)) \<le> 10"
    by (simp add: timed_attempts)
  moreover have "filter timed_connect (steps t) = filter timed_connect t"
  proof (rule filter_steps)
    fix ev
    assume "timed_connect ev"
    then show "\<not> is_traffic ev" by (cases ev) auto
  qed
  ultimately show "length (filter timed_connect t) \<le> 10" by simp
next
  fix r c' t
  assume "terminal_handler E S sid cookie hdr c = (r, c', t)
                 \<and> list_ex is_Connect t \<and> \<not> list_ex opened t"
  then show "r = Inr ()" "last t = SocketClose 1011 ''Could not connect to terminal''"
    using handler_closes [of E S sid cookie hdr c r c' t] by simp_all
qed

lemmas proxy_simps = terminal_connection_def terminal_handler_def bridge_upstream_def
  connectToContainerWs_def connect_loop.simps tryOnce_def createDockerExecBridge_def
  docker_exec_argv_def direct_url_def bridge_url_def exhausted_def decimal.simps
  getUserIdFromCookies_def getAdminUserId_def resolveTerminalAccess_def requested_protocols_def
  suspend_def delay_def socket_close_def bridge_cleanup_def socket_on_def socket_off_def
  flush_buffer_def emit_message_def send_if_open_def
  example_proxy_settings_def scripted_proxy_def fresh_def
  andThen_def try_catch_def pure_def raise_def

lemma received_append: "received (a @ b) = received a @ received b"
  by (induction a rule: received.induct) auto

lemma sent_append: "sent (a @ b) = sent a @ sent b"
  by (induction a rule: sent.induct) auto

lemma deliver_buffering:
  assumes "deliver E fs c = (c', t)" "message_listeners c = [bufferClientMessage]"
  shows "message_listeners c' = [bufferClientMessage]
       \<and> clientMessageBuffer c' = clientMessageBuffer c @ fs \<and> received t = fs \<and> sent t = []"
  using assms
proof (induction fs arbitrary: c c' t)
  case Nil
  then show ?case by simp
next
  case (Cons f fs)
  let ?c1 = "c\<lparr>clientMessageBuffer := clientMessageBuffer c @ [f]\<rparr>"
  from Cons.prems have e: "emit_message E f c = (?c1, [Receive f])"
    by (simp add: emit_message_def)
  with Cons.prems(1) obtain t2 where d: "deliver E fs ?c1 = (c', t2)" and t: "t = Receive f # t2"
    by (auto split: prod.splits)
  from Cons.IH [OF d] Cons.prems(2) t show ?case by simp
qed

lemma buffers_pure: "buffers (pure x)"
  by (simp add: buffers_def pure_apply)

lemma buffers_raise: "buffers (raise e)"
  by (simp add: buffers_def raise_apply)

lemma buffers_andThen:
  assumes "buffers m" "\<And>x. buffers (k x)"
  shows "buffers (andThen m k)"
  unfolding buffers_def
proof (intro allI impI)
  fix c r c' t
  assume a: "andThen m k c = (r, c', t) \<and> message_listeners c = [bufferClientMessage]"
  then have run: "andThen m k c = (r, c', t)" and l: "message_listeners c = [bufferClientMessage]"
    by simp_all
  from run show "message_listeners c' = [bufferClientMessage]
            \<and> clientMessageBuffer c' = clientMessageBuffer c @ received t \<and> sent t = []"
  proof (cases rule: andThenE)
    case (throws e)
    with assms(1) l show ?thesis by (auto simp: buffers_def)
  next
    case (continues x c1 t1 t2)
    from assms(1) continues(1) l have 1: "message_listeners c1 = [bufferClientMessage]"
      "clientMessageBuffer c1 = clientMessageBuffer c @ received t1" "sent t1 = []"
      unfolding buffers_def by blast+
    from assms(2) [of x] continues(2) 1(1) have 2: "message_listeners c' = [bufferClientMessage]"
      "clientMessageBuffer c' = clientMessageBuffer c1 @ received t2" "sent t2 = []"
      unfolding buffers_def by blast+
    from 1 2 continues(3) show ?thesis by (simp add: received_append sent_append)
  qed
qed

lemma buffers_suspend:
  assumes "\<And>x. \<not> is_traffic (ev x)"
  shows "buffers (suspend E f ev)"
  unfolding buffers_def
proof (intro allI impI)
  fix c r c' t
  assume a: "suspend E f ev c = (r, c', t) \<and> message_listeners c = [bufferClientMessage]"
  then obtain fs x c1 t0 where d: "deliver E fs (c\<lparr>world := x\<rparr>) = (c', t0)" and t: "t = t0 @ [ev r]"
    by (auto simp: suspend_def split: prod.splits)
  from a have "message_listeners (c\<lparr>world := x\<rparr>) = [bufferClientMessage]" by simp
  from deliver_buffering [OF d this] have "message_listeners c' = [bufferClientMessage]"
    "clientMessageBuffer c' = clientMessageBuffer c @ fs" "received t0 = fs" "sent t0 = []"
    by simp_all
  moreover from assms [of r] have "received [ev r] = []" "sent [ev r] = []"
    by (cases "ev r"; simp)+
  ultimately show "message_listeners c' = [bufferClientMessage]
            \<and> clientMessageBuffer c' = clientMessageBuffer c @ received t \<and> sent t = []"
    using t by (simp add: received_append sent_append)
qed

lemma buffers_cleanup: "buffers (bridge_cleanup E q)"
  by (simp add: buffers_def bridge_cleanup_def)

lemma buffers_option:
  "buffers a \<Longrightarrow> (\<And>x. buffers (b x)) \<Longrightarrow> buffers (case v of None \<Rightarrow> a | Some x \<Rightarrow> b x)"
  by (cases v) auto

lemma buffers_if: "buffers a \<Longrightarrow> buffers b \<Longrightarrow> buffers (if v then a else b)"
  by simp

lemmas buffers_intros = buffers_pure buffers_raise buffers_andThen buffers_suspend
  buffers_cleanup buffers_option buffers_if

lemma buffers_tryOnce: "buffers (tryOnce E S n p ps)"
  unfolding tryOnce_def createDockerExecBridge_def
  by (intro buffers_intros) simp_all

lemma buffers_delay: "buffers (delay E d)"
  unfolding delay_def by (intro buffers_intros) simp

lemma buffers_connect_loop: "buffers (connect_loop E S n p ps m d k)"
proof (induction "Suc m - k" arbitrary: k)
  case 0
  then have "m < k" by simp
  then show ?case by (simp add: buffers_def connect_loop_past)
next
  case (Suc j)
  then have k: "k \<le> m" and j: "j = Suc m - (k + 1)" by simp_all
  note IH = Suc.hyps(1) [OF j]
  show ?case
    unfolding buffers_def
  proof (intro allI impI)
    fix c r c' t
    assume a: "connect_loop E S n p ps m d k c = (r, c', t)
                 \<and> message_listeners c = [bufferClientMessage]"
    obtain r1 c1 t1 where once: "tryOnce E S n p ps c = (r1, c1, t1)"
      by (cases "tryOnce E S n p ps c") auto
    with buffers_tryOnce [of E S n p ps] a
    have 1: "message_listeners c1 = [bufferClientMessage]"
      "clientMessageBuffer c1 = clientMessageBuffer c @ received t1" "sent t1 = []"
      unfolding buffers_def by blast+
    show "message_listeners c' = [bufferClientMessage]
            \<and> clientMessageBuffer c' = clientMessageBuffer c @ received t \<and> sent t = []"
    proof (cases "r1 = Inr None")
      case False
      with once a k have "c' = c1" "t = t1"
        by (auto simp: connect_loop.simps [of E S n p ps m d k c] split: sum.splits option.splits)
      with 1 show ?thesis by simp
    next
      case True
      obtain r2 c2 t2 where
        pause: "(if k < m then delay E d else pure ()) c1 = (r2, c2, t2)"
        by (cases "(if k < m then delay E d else pure ()) c1") auto
      have "buffers (if k < m then delay E d else pure ())"
        by (intro buffers_intros buffers_delay)
      with pause 1(1) have 2: "message_listeners c2 = [bufferClientMessage]"
        "clientMessageBuffer c2 = clientMessageBuffer c1 @ received t2" "sent t2 = []"
        unfolding buffers_def by blast+
      show ?thesis
      proof (cases r2)
        case (Inl e)
        with True once pause a k have "c' = c2" "t = t1 @ t2"
          by (auto simp: connect_loop.simps [of E S n p ps m d k c])
        with 1 2 show ?thesis by (simp add: received_append sent_append)
      next
        case (Inr u)
        with True once pause a k obtain t3 where
          rec: "connect_loop E S n p ps m d (k + 1) c2 = (r, c', t3)" and t: "t = t1 @ t2 @ t3"
          by (auto simp: connect_loop.simps [of E S n p ps m d k c] split: prod.splits)
        with IH 2(1) have "message_listeners c' = [bufferClientMessage]"
          "clientMessageBuffer c' = clientMessageBuffer c2 @ received t3" "sent t3 = []"
          unfolding buffers_def by blast+
        with 1 2 t show ?thesis by (simp add: received_append sent_append)
      qed
    qed
  qed
qed

lemma flush_open:
  assumes "flush E up fs c = (c', t)" "\<forall>x. ws_readyState E up x = OPEN"
  shows "sent t = fs \<and> received t = [] \<and> message_listeners c' = message_listeners c"
  using assms
proof (induction fs arbitrary: c c' t)
  case Nil
  then show ?case by simp
next
  case (Cons f fs)
  let ?c1 = "c\<lparr>world := ws_send E up f (world c)\<rparr>"
  from Cons.prems have "send_if_open E up f c = (?c1, [Send up f])"
    by (simp add: send_if_open_def)
  with Cons.prems(1) obtain t2 where d: "flush E up fs ?c1 = (c', t2)" and t: "t = Send up f # t2"
    by (auto split: prod.splits)
  from Cons.IH [OF d Cons.prems(2)] t show ?case by simp
qed

lemma deliver_forwarding:
  assumes "deliver E fs c = (c', t)" "message_listeners c = [forwardUpstream up]"
    "\<forall>x. ws_readyState E up x = OPEN"
  shows "sent t = fs \<and> received t = fs \<and> message_listeners c' = [forwardUpstream up]"
  using assms
proof (induction fs arbitrary: c c' t)
  case Nil
  then show ?case by simp
next
  case (Cons f fs)
  let ?c1 = "c\<lparr>world := ws_send E up f (world c)\<rparr>"
  from Cons.prems have "emit_message E f c = (?c1, [Receive f, Send up f])"
    by (simp add: emit_message_def send_if_open_def)
  with Cons.prems(1) obtain t2 where
    d: "deliver E fs ?c1 = (c', t2)" and t: "t = Receive f # Send up f # t2"
    by (auto split: prod.splits)
  from Cons.prems(2) have "message_listeners ?c1 = [forwardUpstream up]" by simp
  from Cons.IH [OF d this Cons.prems(3)] t show ?case by simp
qed

lemma swap_in_order:
  assumes "andThen (socket_off bufferClientMessage) (\<lambda>_.
             andThen (flush_buffer E up) (\<lambda>_. socket_on (forwardUpstream up))) c = (r, c', t)"
    "message_listeners c = [bufferClientMessage]" "\<forall>x. ws_readyState E up x = OPEN"
  shows "sent t = clientMessageBuffer c \<and> received t = []
       \<and> message_listeners c' = [forwardUpstream up]"
proof -
  let ?c0 = "c\<lparr>message_listeners := []\<rparr>"
  obtain c1 t1 where f: "flush E up (clientMessageBuffer c) ?c0 = (c1, t1)"
    by (cases "flush E up (clientMessageBuffer c) ?c0") auto
  with assms(1,2) have "t = t1" "message_listeners c' = message_listeners c1 @ [forwardUpstream up]"
    by (auto simp: andThen_def socket_off_def flush_buffer_def socket_on_def)
  with flush_open [OF f assms(3)] show ?thesis by simp
qed

lemma settles_Inl: "settles res (Inl e) \<longleftrightarrow> res = Inl e"
  by (induction res "Inl e :: thrown + nat" rule: settles.induct) auto

lemma attempts_not_opened:
  "\<not> list_ex opened (concat (map (\<lambda>q. failed_attempt S n p ps q @ [Delay d]) qs))"
  by (induction qs) (simp_all add: failed_attempt_def)

lemma failed_not_opened:
  assumes "connectToContainerWs E S n p ps 10 500 c = (Inl e, c', t)"
  shows "\<not> list_ex opened t"
proof -
  from assms have "connect_loop E S n p ps 10 500 1 c = (Inl e, c', t)"
    by (simp add: connectToContainerWs_def)
  from connect_loop_shape [OF this] obtain qs final where
    shape: "steps t = concat (map (\<lambda>q. failed_attempt S n p ps q @ [Delay 500]) qs) @ final"
      "final_attempt S n p ps final (Inl e) \<or> (\<exists>q. final = failed_attempt S n p ps q)"
    by auto
  from shape(2) have "\<not> list_ex opened final"
    by (auto simp: final_attempt_def settles_Inl failed_attempt_def)
  with shape(1) attempts_not_opened [of S n p ps 500 qs] have "\<not> list_ex opened (steps t)"
    by simp
  moreover have "filter opened (steps t) = filter opened t"
  proof (rule filter_steps)
    fix ev
    assume "opened ev"
    then show "\<not> is_traffic ev" by (cases ev) auto
  qed
  ultimately show ?thesis
    by (metis filter_empty_conv list_ex_iff)
qed

lemma buffered_frames_in_order:
  assumes "bridge_upstream E S n ps c = (r, c1, t1)" "deliver E fs c1 = (c2, t2)"
    "message_listeners c = []" "list_ex opened t1" "\<forall>up x. ws_readyState E up x = OPEN"
  shows "sent (t1 @ t2) = clientMessageBuffer c @ received (t1 @ t2)"
  using assms(1)
proof (cases rule: bridge_upstream_cases)
  case (failed e c' t)
  from failed_not_opened [OF failed(1)] failed(2) assms(4) show ?thesis by simp
next
  case (connected up c' t3 t4)
  let ?c = "c\<lparr>message_listeners := message_listeners c @ [bufferClientMessage]\<rparr>"
  have "buffers (connectToContainerWs E S n (TTYD_PORT S) ps 10 500)"
    unfolding connectToContainerWs_def by (rule buffers_connect_loop)
  moreover from assms(3) have "message_listeners ?c = [bufferClientMessage]" by simp
  ultimately have 1: "message_listeners c' = [bufferClientMessage]"
    "clientMessageBuffer c' = clientMessageBuffer ?c @ received t3" "sent t3 = []"
    using connected(1) unfolding buffers_def by blast+
  from assms(5) have "\<forall>x. ws_readyState E up x = OPEN" by simp
  from swap_in_order [OF connected(2) 1(1) this]
  have 2: "sent t4 = clientMessageBuffer c'" "received t4 = []"
    "message_listeners c1 = [forwardUpstream up]"
    by simp_all
  from deliver_forwarding [OF assms(2) 2(3) \<open>\<forall>x. ws_readyState E up x = OPEN\<close>]
  have "sent t2 = fs" "received t2 = fs" by simp_all
  with 1 2 connected(3) show ?thesis by (simp add: received_append sent_append)
qed

lemma failed_attempt_example:
  "failed_attempt example_proxy_settings ''agent-1'' 7681 [''tty''] 40000
     = [Connect ''ws://agent-1:7681/ws'' [''tty''] (Some 1500) (Inr None),
        CreateBridge [''exec'', ''-i'', ''agent-1'', ''nc'', ''localhost'', ''7681''] (Inr 40000),
        Connect ''ws://127.0.0.1:40000/ws'' [''tty''] None (Inr None),
        ServerClose 40000]"
  by (simp add: failed_attempt_def direct_url_def bridge_url_def docker_exec_argv_def
      decimal.simps example_proxy_settings_def)

lemma unreachable_connect:
  "connectToContainerWs unreachable example_proxy_settings ''agent-1'' 7681 [''tty''] 10 500 fresh
     = (Inl (JsError ''Could not connect to agent-1:7681 after 10 attempts'' None),
        fresh\<lparr>world := 39\<rparr>,
        concat (map (\<lambda>q. failed_attempt example_proxy_settings ''agent-1'' 7681 [''tty''] q
                          @ [Delay 500])
                 [40000, 40000, 40000, 40000, 40000, 40000, 40000, 40000, 40000])
        @ failed_attempt example_proxy_settings ''agent-1'' 7681 [''tty''] 40000)"
  by (simp add: proxy_simps unreachable_def failed_attempt_def)

lemma unreachable_handler:
  "terminal_handler unreachable example_proxy_settings ''s1'' (Some ''session=abc'') None fresh
     = (Inr (),
        \<lparr>world = 41, message_listeners = [bufferClientMessage], clientMessageBuffer = []\<rparr>,
        [GetSession ''session=abc'' (Inr (Some ''u1'')),
         FindFirstSession ''s1'' ''u1'' (Inr (Some (Some ''agent-1'')))]
        @ concat (map (\<lambda>q. failed_attempt example_proxy_settings ''agent-1'' 7681 [''tty''] q
                          @ [Delay 500])
                 [40000, 40000, 40000, 40000, 40000, 40000, 40000, 40000, 40000])
        @ failed_attempt example_proxy_settings ''agent-1'' 7681 [''tty''] 40000
        @ [SocketClose 1011 ''Could not connect to terminal''])"
  by (simp add: proxy_simps unreachable_def failed_attempt_def)

theorem connect_attempts_witness:
  "fst (connectToContainerWs unreachable example_proxy_settings ''agent-1'' 7681 [''tty''] 10 500
          fresh)
     = Inl (JsError ''Could not connect to agent-1:7681 after 10 attempts'' None)
   \<and> length (filter timed_connect
         (snd (snd (connectToContainerWs unreachable example_proxy_settings ''agent-1'' 7681
                      [''tty''] 10 500 fresh)))) = 10
   \<and> steps (snd (snd (connectToContainerWs unreachable example_proxy_settings ''agent-1'' 7681
                      [''tty''] 10 500 fresh)))
     = concat (map (\<lambda>q. failed_attempt example_proxy_settings ''agent-1'' 7681 [''tty''] q
                          @ [Delay 500])
                [40000, 40000, 40000, 40000, 40000, 40000, 40000, 40000, 40000])
       @ failed_attempt example_proxy_settings ''agent-1'' 7681 [''tty''] 40000
   \<and> failed_attempt example_proxy_settings ''agent-1'' 7681 [''tty''] 40000
     = [Connect ''ws://agent-1:7681/ws'' [''tty''] (Some 1500) (Inr None),
        CreateBridge [''exec'', ''-i'', ''agent-1'', ''nc'', ''localhost'', ''7681''] (Inr 40000),
        Connect ''ws://127.0.0.1:40000/ws'' [''tty''] None (Inr None),
        ServerClose 40000]
   \<and> fst (terminal_handler unreachable example_proxy_settings ''s1'' (Some ''session=abc'') None
            fresh) = Inr ()
   \<and> last (snd (snd (terminal_handler unreachable example_proxy_settings ''s1''
                       (Some ''session=abc'') None fresh)))
     = SocketClose 1011 ''Could not connect to terminal''"
  using connect_attempts [where E = unreachable and S = example_proxy_settings
      and n = "''agent-1''" and p = 7681 and ps = "[''tty'']" and c = fresh and sid = "''s1''"
      and cookie = "Some ''session=abc''" and hdr = None]
  by (simp add: unreachable_connect unreachable_handler failed_attempt_example steps_def)

text \<open>
  C7 fails on the handler. The buffering listener is installed after the two lookups the
  handler awaits first, so a client message that arrives during them finds no listener:
  \<open>hello\<close> below is received and never sent upstream, while \<open>a\<close>, received during the
  connection, and \<open>b\<close>, received after it, are sent in that order. The comment above the
  buffer counts the authentication among what it covers. From the installation on nothing
  is lost or reordered (\<open>buffered_frames_in_order\<close>).
\<close>

theorem terminal_frame_dropped:
  "terminal_connection early_frame example_proxy_settings ''s1'' (Some ''session=abc'') None 0
     = (Inr (),
        \<lparr>world = 4, message_listeners = [forwardUpstream 7],
           clientMessageBuffer = [(''a'', False)]\<rparr>,
        [Receive (''hello'', False),
         GetSession ''session=abc'' (Inr (Some ''u1'')),
         FindFirstSession ''s1'' ''u1'' (Inr (Some (Some ''agent-1''))),
         Receive (''a'', False),
         Connect ''ws://agent-1:7681/ws'' [''tty''] (Some 1500) (Inr (Some 7)),
         Send 7 (''a'', False),
         Receive (''b'', False),
         Send 7 (''b'', False)])"
  by (simp add: proxy_simps early_frame_def)

subsection \<open>Client hooks\<close>

text \<open>
  C8. \<open>computeStatus\<close> is \<open>Active\<close> exactly below 30 s of elapsed time, \<open>Viewing\<close>
  exactly from 30 s up to but not including 120 s, and \<open>Inactive\<close> from 120 s on; the
  two boundaries fall on the later status, and a longer elapsed time never gives a status
  closer to \<open>Active\<close>.
\<close>

theorem computeStatus_thresholds:
  "(computeStatus now t0 = Active \<longleftrightarrow> now - t0 < 30000) \<and>
   (computeStatus now t0 = Viewing \<longleftrightarrow> 30000 \<le> now - t0 \<and> now - t0 < 120000) \<and>
   (computeStatus now t0 = Inactive \<longleftrightarrow> 120000 \<le> now - t0) \<and>
   computeStatus (t0 + 30000) t0 = Viewing \<and>
   computeStatus (t0 + 120000) t0 = Inactive \<and>
   (now - t0 \<le> now' - t0' \<longrightarrow>
      status_rank (computeStatus now t0) \<le> status_rank (computeStatus now' t0'))"
  by (simp add: computeStatus_def ACTIVE_THRESHOLD_MS_def VIEWING_THRESHOLD_MS_def Let_def)

theorem computeStatus_thresholds_witness:
  "(45000::int) - 0 \<le> 130000 - 0 \<and>
   computeStatus 45000 0 = Viewing \<and> computeStatus 130000 0 = Inactive \<and>
   status_rank (computeStatus 45000 0) \<le> status_rank (computeStatus 130000 0)"
  using computeStatus_thresholds [of 45000 0 130000 0]
  by (simp add: computeStatus_def ACTIVE_THRESHOLD_MS_def VIEWING_THRESHOLD_MS_def)

text \<open>
  C10. When a session with the same id is already in the list, \<open>addSession\<close> returns the
  list it was given; otherwise it returns the list with the new session appended at the
  end. Adding the same session twice is the same as adding it once.
\<close>

theorem addSession_idempotent:
  "((\<exists>s \<in> set prev. id_field s = id_field new) \<longrightarrow> addSession new prev = prev) \<and>
   ((\<forall>s \<in> set prev. id_field s \<noteq> id_field new) \<longrightarrow> addSession new prev = prev @ [new]) \<and>
   addSession new (addSession new prev) = addSession new prev"
  by (auto simp: addSession_def list_ex_iff)

theorem addSession_idempotent_witness:
  "(\<exists>s \<in> set [\<lparr>id_field = ''s1'', name_field = None, status_field = ''running'',
        containerName = None, createdAt = 0, updatedAt = 0, userId = ''u'', projectId = None,
        parentId = None, relationType = None\<rparr>].
      id_field s = ''s1'') \<and>
   addSession \<lparr>id_field = ''s1'', name_field = Some ''again'', status_field = ''pending'',
        containerName = None, createdAt = 5, updatedAt = 5, userId = ''u'', projectId = None,
        parentId = None, relationType = None\<rparr>
     [\<lparr>id_field = ''s1'', name_field = None, status_field = ''running'',
        containerName = None, createdAt = 0, updatedAt = 0, userId = ''u'', projectId = None,
        parentId = None, relationType = None\<rparr>]
   = [\<lparr>id_field = ''s1'', name_field = None, status_field = ''running'',
        containerName = None, createdAt = 0, updatedAt = 0, userId = ''u'', projectId = None,
        parentId = None, relationType = None\<rparr>] \<and>
   \<not> (\<exists>s \<in> set ([] :: SessionEntry list). id_field s = ''s2'') \<and>
   addSession \<lparr>id_field = ''s2'', name_field = None, status_field = ''pending'',
        containerName = None, createdAt = 0, updatedAt = 0, userId = ''u'', projectId = None,
        parentId = None, relationType = None\<rparr> []
   = [\<lparr>id_field = ''s2'', name_field = None, status_field = ''pending'',
        containerName = None, createdAt = 0, updatedAt = 0, userId = ''u'', projectId = None,
        parentId = None, relationType = None\<rparr>]"
  using addSession_idempotent [of
      "[\<lparr>id_field = ''s1'', name_field = None, status_field = ''running'',
        containerName = None, createdAt = 0, updatedAt = 0, userId = ''u'', projectId = None,
        parentId = None, relationType = None\<rparr>]"
      "\<lparr>id_field = ''s1'', name_field = Some ''again'', status_field = ''pending'',
        containerName = None, createdAt = 5, updatedAt = 5, userId = ''u'', projectId = None,
        parentId = None, relationType = None\<rparr>"]
    addSession_idempotent [of "[]"
      "\<lparr>id_field = ''s2'', name_field = None, status_field = ''pending'',
        containerName = None, createdAt = 0, updatedAt = 0, userId = ''u'', projectId = None,
        parentId = None, relationType = None\<rparr>"]
  by simp

end
